theory Spec2Isabelle
  imports Main "HOL-Library.Monad_Syntax"
begin

section \<open>Tokens (pkg/lexer/token.go)\<close>

text \<open>
  \<open>type TokenType int\<close>, and the token kinds with their values in the source's \<open>iota\<close>
  block. The kinds \<open>INT\<close>, \<open>CHAR\<close>, \<open>CONST\<close> and \<open>TYPE\<close> of the source carry a prime
  here, because these words are reserved syntax of HOL.
\<close>

type_synonym TokenType = int

definition ILLEGAL :: TokenType where "ILLEGAL = 0"
definition EOF :: TokenType where "EOF = 1"
definition COMMENT :: TokenType where "COMMENT = 2"
definition IDENT :: TokenType where "IDENT = 3"
definition INT' :: TokenType where "INT' = 4"
definition FLOAT :: TokenType where "FLOAT = 5"
definition STRING :: TokenType where "STRING = 6"
definition CHAR' :: TokenType where "CHAR' = 7"
definition AND :: TokenType where "AND = 8"
definition OR :: TokenType where "OR = 9"
definition NOT :: TokenType where "NOT = 10"
definition IF :: TokenType where "IF = 11"
definition ELIF :: TokenType where "ELIF = 12"
definition ELSE :: TokenType where "ELSE = 13"
definition FOR :: TokenType where "FOR = 14"
definition WHILE :: TokenType where "WHILE = 15"
definition FUNC :: TokenType where "FUNC = 16"
definition RETURN :: TokenType where "RETURN = 17"
definition IMPORT :: TokenType where "IMPORT = 18"
definition FROM :: TokenType where "FROM = 19"
definition STRUCT :: TokenType where "STRUCT = 20"
definition INTERFACE :: TokenType where "INTERFACE = 21"
definition VAR :: TokenType where "VAR = 22"
definition CONST' :: TokenType where "CONST' = 23"
definition TRUE :: TokenType where "TRUE = 24"
definition FALSE :: TokenType where "FALSE = 25"
definition NIL :: TokenType where "NIL = 26"
definition IN :: TokenType where "IN = 27"
definition RANGE :: TokenType where "RANGE = 28"
definition BREAK :: TokenType where "BREAK = 29"
definition CONTINUE :: TokenType where "CONTINUE = 30"
definition DEFER :: TokenType where "DEFER = 31"
definition GO :: TokenType where "GO = 32"
definition CHAN :: TokenType where "CHAN = 33"
definition SELECT :: TokenType where "SELECT = 34"
definition CASE :: TokenType where "CASE = 35"
definition DEFAULT :: TokenType where "DEFAULT = 36"
definition SWITCH :: TokenType where "SWITCH = 37"
definition TYPE' :: TokenType where "TYPE' = 38"
definition PACKAGE :: TokenType where "PACKAGE = 39"
definition ASSIGN :: TokenType where "ASSIGN = 40"
definition WALRUS :: TokenType where "WALRUS = 41"
definition PLUS :: TokenType where "PLUS = 42"
definition MINUS :: TokenType where "MINUS = 43"
definition MULTIPLY :: TokenType where "MULTIPLY = 44"
definition DIVIDE :: TokenType where "DIVIDE = 45"
definition MODULO :: TokenType where "MODULO = 46"
definition POWER :: TokenType where "POWER = 47"
definition EQ :: TokenType where "EQ = 48"
definition NOT_EQ :: TokenType where "NOT_EQ = 49"
definition LT :: TokenType where "LT = 50"
definition LT_EQ :: TokenType where "LT_EQ = 51"
definition GT :: TokenType where "GT = 52"
definition GT_EQ :: TokenType where "GT_EQ = 53"
definition PLUS_EQ :: TokenType where "PLUS_EQ = 54"
definition MINUS_EQ :: TokenType where "MINUS_EQ = 55"
definition MULT_EQ :: TokenType where "MULT_EQ = 56"
definition DIV_EQ :: TokenType where "DIV_EQ = 57"
definition MOD_EQ :: TokenType where "MOD_EQ = 58"
definition BITWISE_AND :: TokenType where "BITWISE_AND = 59"
definition BITWISE_OR :: TokenType where "BITWISE_OR = 60"
definition BITWISE_XOR :: TokenType where "BITWISE_XOR = 61"
definition LEFT_SHIFT :: TokenType where "LEFT_SHIFT = 62"
definition RIGHT_SHIFT :: TokenType where "RIGHT_SHIFT = 63"
definition BIT_CLEAR :: TokenType where "BIT_CLEAR = 64"
definition INCREMENT :: TokenType where "INCREMENT = 65"
definition DECREMENT :: TokenType where "DECREMENT = 66"
definition COMMA :: TokenType where "COMMA = 67"
definition SEMICOLON :: TokenType where "SEMICOLON = 68"
definition COLON :: TokenType where "COLON = 69"
definition DOT :: TokenType where "DOT = 70"
definition ARROW :: TokenType where "ARROW = 71"
definition CHANNEL :: TokenType where "CHANNEL = 72"
definition LPAREN :: TokenType where "LPAREN = 73"
definition RPAREN :: TokenType where "RPAREN = 74"
definition LBRACKET :: TokenType where "LBRACKET = 75"
definition RBRACKET :: TokenType where "RBRACKET = 76"
definition LBRACE :: TokenType where "LBRACE = 77"
definition RBRACE :: TokenType where "RBRACE = 78"
definition NEWLINE :: TokenType where "NEWLINE = 79"
definition INDENT :: TokenType where "INDENT = 80"
definition DEDENT :: TokenType where "DEDENT = 81"

lemmas TokenType_defs =
  ILLEGAL_def EOF_def COMMENT_def IDENT_def INT'_def FLOAT_def STRING_def CHAR'_def AND_def
  OR_def NOT_def IF_def ELIF_def ELSE_def FOR_def WHILE_def FUNC_def RETURN_def IMPORT_def
  FROM_def STRUCT_def INTERFACE_def VAR_def CONST'_def TRUE_def FALSE_def NIL_def IN_def
  RANGE_def BREAK_def CONTINUE_def DEFER_def GO_def CHAN_def SELECT_def CASE_def DEFAULT_def
  SWITCH_def TYPE'_def PACKAGE_def ASSIGN_def WALRUS_def PLUS_def MINUS_def MULTIPLY_def
  DIVIDE_def MODULO_def POWER_def EQ_def NOT_EQ_def LT_def LT_EQ_def GT_def GT_EQ_def
  PLUS_EQ_def MINUS_EQ_def MULT_EQ_def DIV_EQ_def MOD_EQ_def BITWISE_AND_def BITWISE_OR_def
  BITWISE_XOR_def LEFT_SHIFT_def RIGHT_SHIFT_def BIT_CLEAR_def INCREMENT_def DECREMENT_def
  COMMA_def SEMICOLON_def COLON_def DOT_def ARROW_def CHANNEL_def LPAREN_def RPAREN_def
  LBRACKET_def RBRACKET_def LBRACE_def RBRACE_def NEWLINE_def INDENT_def DEDENT_def

declare TokenType_defs [simp]

record Token =
  Type :: TokenType
  Literal :: string
  Line :: int
  Column :: int
  Position :: int

text \<open>The \<open>switch\<close> of \<open>TokenTypeString\<close>, with its \<open>default\<close> branch.\<close>

definition TokenTypeNames :: "(TokenType \<times> string) list" where
  "TokenTypeNames =
    [(ILLEGAL, ''ILLEGAL''), (EOF, ''EOF''), (COMMENT, ''COMMENT''), (IDENT, ''IDENT''),
     (INT', ''INT''), (FLOAT, ''FLOAT''), (STRING, ''STRING''), (CHAR', ''CHAR''),
     (AND, ''AND''), (OR, ''OR''), (NOT, ''NOT''), (IF, ''IF''), (ELIF, ''ELIF''),
     (ELSE, ''ELSE''), (FOR, ''FOR''), (WHILE, ''WHILE''), (FUNC, ''FUNC''),
     (RETURN, ''RETURN''), (IMPORT, ''IMPORT''), (FROM, ''FROM''), (STRUCT, ''STRUCT''),
     (INTERFACE, ''INTERFACE''), (VAR, ''VAR''), (CONST', ''CONST''), (TRUE, ''TRUE''),
     (FALSE, ''FALSE''), (NIL, ''NIL''), (IN, ''IN''), (RANGE, ''RANGE''),
     (BREAK, ''BREAK''), (CONTINUE, ''CONTINUE''), (DEFER, ''DEFER''), (GO, ''GO''),
     (CHAN, ''CHAN''), (SELECT, ''SELECT''), (CASE, ''CASE''), (DEFAULT, ''DEFAULT''),
     (SWITCH, ''SWITCH''), (TYPE', ''TYPE''), (PACKAGE, ''PACKAGE''), (ASSIGN, ''ASSIGN''),
     (WALRUS, ''WALRUS''), (PLUS, ''PLUS''), (MINUS, ''MINUS''), (MULTIPLY, ''MULTIPLY''),
     (DIVIDE, ''DIVIDE''), (MODULO, ''MODULO''), (POWER, ''POWER''), (EQ, ''EQ''),
     (NOT_EQ, ''NOT_EQ''), (LT, ''LT''), (LT_EQ, ''LT_EQ''), (GT, ''GT''),
     (GT_EQ, ''GT_EQ''), (PLUS_EQ, ''PLUS_EQ''), (MINUS_EQ, ''MINUS_EQ''),
     (MULT_EQ, ''MULT_EQ''), (DIV_EQ, ''DIV_EQ''), (MOD_EQ, ''MOD_EQ''),
     (BITWISE_AND, ''BITWISE_AND''), (BITWISE_OR, ''BITWISE_OR''),
     (BITWISE_XOR, ''BITWISE_XOR''), (LEFT_SHIFT, ''LEFT_SHIFT''),
     (RIGHT_SHIFT, ''RIGHT_SHIFT''), (BIT_CLEAR, ''BIT_CLEAR''), (INCREMENT, ''INCREMENT''),
     (DECREMENT, ''DECREMENT''), (COMMA, ''COMMA''), (SEMICOLON, ''SEMICOLON''),
     (COLON, ''COLON''), (DOT, ''DOT''), (ARROW, ''ARROW''), (CHANNEL, ''CHANNEL''),
     (LPAREN, ''LPAREN''), (RPAREN, ''RPAREN''), (LBRACKET, ''LBRACKET''),
     (RBRACKET, ''RBRACKET''), (LBRACE, ''LBRACE''), (RBRACE, ''RBRACE''),
     (NEWLINE, ''NEWLINE''), (INDENT, ''INDENT''), (DEDENT, ''DEDENT'')]"

definition TokenTypeString :: "TokenType \<Rightarrow> string" where
  "TokenTypeString tokenType =
     (case map_of TokenTypeNames tokenType of Some name \<Rightarrow> name | None \<Rightarrow> ''UNKNOWN'')"

definition Keywords :: "(string \<times> TokenType) list" where
  "Keywords =
    [(''and'', AND), (''or'', OR), (''not'', NOT), (''if'', IF), (''elif'', ELIF),
     (''else'', ELSE), (''for'', FOR), (''while'', WHILE), (''func'', FUNC),
     (''return'', RETURN), (''import'', IMPORT), (''from'', FROM), (''struct'', STRUCT),
     (''interface'', INTERFACE), (''var'', VAR), (''const'', CONST'), (''true'', TRUE),
     (''false'', FALSE), (''nil'', NIL), (''in'', IN), (''range'', RANGE),
     (''break'', BREAK), (''continue'', CONTINUE), (''defer'', DEFER), (''go'', GO),
     (''chan'', CHAN), (''select'', SELECT), (''case'', CASE), (''default'', DEFAULT),
     (''switch'', SWITCH), (''type'', TYPE'), (''package'', PACKAGE)]"

definition LookupIdent :: "string \<Rightarrow> TokenType" where
  "LookupIdent ident = (case map_of Keywords ident of Some tok \<Rightarrow> tok | None \<Rightarrow> IDENT)"


section \<open>The lexer (pkg/lexer/lexer.go)\<close>

text \<open>
  A source text is a Go string, that is a sequence of bytes: \<open>string\<close>. The sentinel for
  the end of the input is the byte 0. The offsets \<open>position\<close> and \<open>readPosition\<close> start
  at 0 and are only ever incremented, so they are natural numbers; Go's 64-bit \<open>int\<close> does
  not overflow on them before \<open>2^63\<close> calls of \<open>readChar\<close>, and the model does not wrap.
  The fields a token is built from by subtraction (\<open>Line\<close>, \<open>Column\<close>, \<open>Position\<close>) are
  integers.
\<close>

abbreviation NUL :: char where "NUL \<equiv> CHR 0x00"
abbreviation LF :: char where "LF \<equiv> CHR 0x0A"
abbreviation TAB :: char where "TAB \<equiv> CHR 0x09"
abbreviation CR :: char where "CR \<equiv> CHR 0x0D"
abbreviation DQUOTE :: char where "DQUOTE \<equiv> CHR 0x22"
abbreviation SQUOTE :: char where "SQUOTE \<equiv> CHR 0x27"
abbreviation BACKSLASH :: char where "BACKSLASH \<equiv> CHR 0x5C"

record Lexer =
  input :: string
  position :: nat
  readPosition :: nat
  ch :: char
  line :: int
  column :: int
  indentStack :: "int list"

text \<open>A run-time panic of Go; the only one the lexer can raise is a slice out of range.\<close>

datatype panic = SliceBoundsOutOfRange

text \<open>\<open>s[lo:hi]\<close> on a Go string: it panics unless \<open>lo \<le> hi \<le> len(s)\<close>.\<close>

definition slice :: "string \<Rightarrow> nat \<Rightarrow> nat \<Rightarrow> panic + string" where
  "slice s lo hi =
     (if lo \<le> hi \<and> hi \<le> length s then Inr (take (hi - lo) (drop lo s))
      else Inl SliceBoundsOutOfRange)"

text \<open>
  \<open>string(ch)\<close> for a byte \<open>ch\<close>: Go converts the byte's value as a code point to UTF-8, one
  byte below 128 and two bytes from 128 on.
\<close>

definition string_of_byte :: "char \<Rightarrow> string" where
  "string_of_byte c =
     (let n = (of_char c :: nat) in
      if n < 128 then [c] else [char_of (192 + n div 64), char_of (128 + n mod 64)])"

definition isLetter :: "char \<Rightarrow> bool" where
  "isLetter c =
     (let n = (of_char c :: nat) in
      97 \<le> n \<and> n \<le> 122 \<or> 65 \<le> n \<and> n \<le> 90 \<or> c = CHR ''_'' \<or> n > 127)"

definition isDigit :: "char \<Rightarrow> bool" where
  "isDigit c = (let n = (of_char c :: nat) in 48 \<le> n \<and> n \<le> 57)"

definition readChar :: "Lexer \<Rightarrow> Lexer" where
  "readChar l =
     (let c = (if readPosition l \<ge> length (input l) then NUL else input l ! readPosition l);
          l1 = l\<lparr>ch := c, position := readPosition l, readPosition := readPosition l + 1\<rparr>
      in if c = LF then l1\<lparr>line := line l1 + 1, column := 0\<rparr>
         else l1\<lparr>column := column l1 + 1\<rparr>)"

definition New :: "string \<Rightarrow> Lexer" where
  "New inp =
     readChar \<lparr>input = inp, position = 0, readPosition = 0, ch = NUL, line = 1, column = 0,
               indentStack = [0]\<rparr>"

definition peekChar :: "Lexer \<Rightarrow> char" where
  "peekChar l = (if readPosition l \<ge> length (input l) then NUL else input l ! readPosition l)"

text \<open>
  The scanning loops stop at the sentinel at the latest; the measure is the number of
  bytes not yet read, plus one while the current byte is not the sentinel.
\<close>

definition unread :: "Lexer \<Rightarrow> nat" where
  "unread l = (length (input l) - readPosition l) + (if ch l = NUL then 0 else 1)"

lemma unread_readChar: "ch l \<noteq> NUL \<Longrightarrow> unread (readChar l) < unread l"
  by (auto simp: unread_def readChar_def Let_def)

function skipWhitespace :: "Lexer \<Rightarrow> Lexer" where
  "skipWhitespace l =
     (if ch l = CHR '' '' \<or> ch l = TAB \<or> ch l = CR then skipWhitespace (readChar l) else l)"
  by pat_completeness auto
termination
  by (relation "measure unread") (auto intro: unread_readChar)

declare skipWhitespace.simps [simp del]

function readIdentifier_loop :: "Lexer \<Rightarrow> Lexer" where
  "readIdentifier_loop l =
     (if isLetter (ch l) \<or> isDigit (ch l) then readIdentifier_loop (readChar l) else l)"
  by pat_completeness auto
termination
  by (relation "measure unread") (auto intro!: unread_readChar simp: isLetter_def isDigit_def)

declare readIdentifier_loop.simps [simp del]

definition readIdentifier :: "Lexer \<Rightarrow> (panic + string) \<times> Lexer" where
  "readIdentifier l =
     (let position0 = position l; l1 = readIdentifier_loop l
      in (slice (input l1) position0 (position l1), l1))"

function readDigits :: "Lexer \<Rightarrow> Lexer" where
  "readDigits l = (if isDigit (ch l) then readDigits (readChar l) else l)"
  by pat_completeness auto
termination
  by (relation "measure unread") (auto intro!: unread_readChar simp: isDigit_def)

declare readDigits.simps [simp del]

definition readNumber :: "Lexer \<Rightarrow> (panic + string \<times> TokenType) \<times> Lexer" where
  "readNumber l =
     (let position0 = position l;
          l1 = readDigits l;
          (tokenType1, l2) =
             (if ch l1 = CHR ''.'' \<and> isDigit (peekChar l1)
              then (FLOAT, readDigits (readChar l1)) else (INT', l1));
          (tokenType2, l3) =
             (if ch l2 = CHR ''e'' \<or> ch l2 = CHR ''E''
              then (let l4 = readChar l2;
                        l5 = (if ch l4 = CHR ''+'' \<or> ch l4 = CHR ''-'' then readChar l4 else l4)
                    in (FLOAT, readDigits l5))
              else (tokenType1, l2))
      in (case slice (input l3) position0 (position l3) of
            Inl e \<Rightarrow> Inl e
          | Inr s \<Rightarrow> Inr (s, tokenType2), l3))"

function readString_loop :: "char \<Rightarrow> Lexer \<Rightarrow> Lexer" where
  "readString_loop delimiter l =
     (let l1 = readChar l in
      if ch l1 = delimiter \<or> ch l1 = NUL then l1
      else readString_loop delimiter (if ch l1 = BACKSLASH then readChar l1 else l1))"
  by pat_completeness auto
termination
  by (relation "measure (\<lambda>(d, l). length (input l) - readPosition l)")
     (auto simp: readChar_def Let_def split: if_splits)

declare readString_loop.simps [simp del]

definition readString :: "char \<Rightarrow> Lexer \<Rightarrow> (panic + string) \<times> Lexer" where
  "readString delimiter l =
     (let position0 = position l + 1; l1 = readString_loop delimiter l
      in (slice (input l1) position0 (position l1), l1))"

function readComment_loop :: "Lexer \<Rightarrow> Lexer" where
  "readComment_loop l =
     (if ch l \<noteq> LF \<and> ch l \<noteq> NUL then readComment_loop (readChar l) else l)"
  by pat_completeness auto
termination
  by (relation "measure unread") (auto intro: unread_readChar)

declare readComment_loop.simps [simp del]

definition readComment :: "Lexer \<Rightarrow> (panic + string) \<times> Lexer" where
  "readComment l =
     (let position0 = position l; l1 = readComment_loop l
      in (slice (input l1) position0 (position l1), l1))"

definition newToken :: "TokenType \<Rightarrow> char \<Rightarrow> int \<Rightarrow> int \<Rightarrow> int \<Rightarrow> Token" where
  "newToken tokenType c ln col pos =
     \<lparr>Type = tokenType, Literal = string_of_byte c, Line = ln, Column = col, Position = pos\<rparr>"

text \<open>
  The branches of \<open>NextToken\<close>'s switch are named here, one definition for each shape. A one-byte
  token is built at the current byte and the final \<open>readChar\<close> of \<open>NextToken\<close> steps over
  it. A two-byte operator (the source repeats this block in every such branch) keeps the
  first byte, reads the second, builds the token from the lexer as it is then, and the
  final \<open>readChar\<close> follows.
\<close>

definition oneChar :: "TokenType \<Rightarrow> Lexer \<Rightarrow> (panic + Token) \<times> Lexer" where
  "oneChar tokenType l =
     (Inr (newToken tokenType (ch l) (line l) (column l) (int (position l))), readChar l)"

definition twoChar :: "TokenType \<Rightarrow> Lexer \<Rightarrow> (panic + Token) \<times> Lexer" where
  "twoChar tokenType l =
     (let c = ch l; l1 = readChar l
      in (Inr \<lparr>Type = tokenType, Literal = string_of_byte c @ string_of_byte (ch l1),
               Line = line l1, Column = column l1 - 1, Position = int (position l1) - 1\<rparr>,
          readChar l1))"

text \<open>
  A quoted literal: the token's position fields are read after the scan, and the final
  \<open>readChar\<close> steps over the closing delimiter. When the slice panics, \<open>NextToken\<close> is
  left there, with the lexer as the scan left it. A comment, an identifier and a number
  return early, without the final \<open>readChar\<close>; the end of the input is an \<open>EOF\<close> token,
  and the final \<open>readChar\<close> still runs.
\<close>

definition quoted :: "TokenType \<Rightarrow> char \<Rightarrow> Lexer \<Rightarrow> (panic + Token) \<times> Lexer" where
  "quoted tokenType delimiter l =
     (case readString delimiter l of
        (Inl e, l1) \<Rightarrow> (Inl e, l1)
      | (Inr s, l1) \<Rightarrow>
          (Inr \<lparr>Type = tokenType, Literal = s, Line = line l1, Column = column l1,
                Position = int (position l1)\<rparr>, readChar l1))"

definition commentToken :: "Lexer \<Rightarrow> (panic + Token) \<times> Lexer" where
  "commentToken l =
     (case readComment l of
        (Inl e, l1) \<Rightarrow> (Inl e, l1)
      | (Inr s, l1) \<Rightarrow>
          (Inr \<lparr>Type = COMMENT, Literal = s, Line = line l1, Column = column l1,
                Position = int (position l1)\<rparr>, l1))"

definition endOfFileToken :: "Lexer \<Rightarrow> (panic + Token) \<times> Lexer" where
  "endOfFileToken l =
     (Inr \<lparr>Type = EOF, Literal = [], Line = line l, Column = column l,
           Position = int (position l)\<rparr>, readChar l)"

definition identifierToken :: "Lexer \<Rightarrow> (panic + Token) \<times> Lexer" where
  "identifierToken l =
     (case readIdentifier l of
        (Inl e, l1) \<Rightarrow> (Inl e, l1)
      | (Inr s, l1) \<Rightarrow>
          (Inr \<lparr>Type = LookupIdent s, Literal = s, Line = line l1,
                Column = column l1 - int (length s),
                Position = int (position l1) - int (length s)\<rparr>, l1))"

definition numberToken :: "Lexer \<Rightarrow> (panic + Token) \<times> Lexer" where
  "numberToken l =
     (case readNumber l of
        (Inl e, l1) \<Rightarrow> (Inl e, l1)
      | (Inr (s, tokenType), l1) \<Rightarrow>
          (Inr \<lparr>Type = tokenType, Literal = s, Line = line l1,
                Column = column l1 - int (length s),
                Position = int (position l1) - int (length s)\<rparr>, l1))"

definition NextToken :: "Lexer \<Rightarrow> (panic + Token) \<times> Lexer" where
  "NextToken l0 =
     (let l = skipWhitespace l0; c = ch l; pk = peekChar l in
      if c = CHR ''='' then
        (if pk = CHR ''='' then twoChar EQ l else oneChar ASSIGN l)
      else if c = CHR ''+'' then
        (if pk = CHR ''='' then twoChar PLUS_EQ l
         else if pk = CHR ''+'' then twoChar INCREMENT l else oneChar PLUS l)
      else if c = CHR ''-'' then
        (if pk = CHR ''='' then twoChar MINUS_EQ l
         else if pk = CHR ''-'' then twoChar DECREMENT l
         else if pk = CHR ''>'' then twoChar ARROW l else oneChar MINUS l)
      else if c = CHR ''*'' then
        (if pk = CHR ''='' then twoChar MULT_EQ l
         else if pk = CHR ''*'' then twoChar POWER l else oneChar MULTIPLY l)
      else if c = CHR ''/'' then
        (if pk = CHR ''='' then twoChar DIV_EQ l else oneChar DIVIDE l)
      else if c = CHR ''%'' then
        (if pk = CHR ''='' then twoChar MOD_EQ l else oneChar MODULO l)
      else if c = CHR ''!'' then
        (if pk = CHR ''='' then twoChar NOT_EQ l else oneChar ILLEGAL l)
      else if c = CHR ''<'' then
        (if pk = CHR ''='' then twoChar LT_EQ l
         else if pk = CHR ''<'' then twoChar LEFT_SHIFT l
         else if pk = CHR ''-'' then twoChar CHANNEL l else oneChar LT l)
      else if c = CHR ''>'' then
        (if pk = CHR ''='' then twoChar GT_EQ l
         else if pk = CHR ''>'' then twoChar RIGHT_SHIFT l else oneChar GT l)
      else if c = CHR ''&'' then
        (if pk = CHR ''^'' then twoChar BIT_CLEAR l else oneChar BITWISE_AND l)
      else if c = CHR ''|'' then oneChar BITWISE_OR l
      else if c = CHR ''^'' then oneChar BITWISE_XOR l
      else if c = CHR '':'' then
        (if pk = CHR ''='' then twoChar WALRUS l else oneChar COLON l)
      else if c = CHR '';'' then oneChar SEMICOLON l
      else if c = CHR '','' then oneChar COMMA l
      else if c = CHR ''.'' then oneChar DOT l
      else if c = CHR ''('' then oneChar LPAREN l
      else if c = CHR '')'' then oneChar RPAREN l
      else if c = CHR ''['' then oneChar LBRACKET l
      else if c = CHR '']'' then oneChar RBRACKET l
      else if c = CHR ''{'' then oneChar LBRACE l
      else if c = CHR ''}'' then oneChar RBRACE l
      else if c = DQUOTE then quoted STRING DQUOTE l
      else if c = SQUOTE then quoted CHAR' SQUOTE l
      else if c = CHR ''#'' then commentToken l
      else if c = LF then oneChar NEWLINE l
      else if c = NUL then endOfFileToken l
      else if isLetter c then identifierToken l
      else if isDigit c then numberToken l
      else oneChar ILLEGAL l)"

subsection \<open>Calling the lexer repeatedly\<close>

text \<open>
  The callers of the lexer (the parser, the debug command of the command line, the tests)
  call \<open>NextToken\<close> again and again on the same lexer. \<open>calls n l\<close> is the lexer after
  \<open>n\<close> calls and \<open>tokens n l\<close> are the results of the first \<open>n\<close> calls, a panic or a
  token each.
\<close>

fun calls :: "nat \<Rightarrow> Lexer \<Rightarrow> Lexer" where
  "calls 0 l = l"
| "calls (Suc n) l = calls n (snd (NextToken l))"

fun tokens :: "nat \<Rightarrow> Lexer \<Rightarrow> (panic + Token) list" where
  "tokens 0 l = []"
| "tokens (Suc n) l = fst (NextToken l) # tokens n (snd (NextToken l))"

definition isToken :: "TokenType \<Rightarrow> panic + Token \<Rightarrow> bool" where
  "isToken t r = (case r of Inl e \<Rightarrow> False | Inr tok \<Rightarrow> Type tok = t)"

definition notEOF :: "panic + Token \<Rightarrow> bool" where
  "notEOF r = (case r of Inl e \<Rightarrow> False | Inr tok \<Rightarrow> Type tok \<noteq> EOF)"

text \<open>
  What \<open>readChar\<close> establishes and every scan keeps: \<open>readPosition\<close> is one past
  \<open>position\<close>, and \<open>ch\<close> is the byte at \<open>position\<close>, the sentinel past the end.
\<close>

definition lexer_ok :: "Lexer \<Rightarrow> bool" where
  "lexer_ok l =
     (readPosition l = position l + 1 \<and>
      ch l = (if position l \<ge> length (input l) then NUL else input l ! position l))"

text \<open>
  \<open>scanned k l l'\<close>: the lexer \<open>l'\<close> is \<open>l\<close> after a scan over at least \<open>k\<close> bytes of
  the same input.
\<close>

definition scanned :: "nat \<Rightarrow> Lexer \<Rightarrow> Lexer \<Rightarrow> bool" where
  "scanned k l l' = (lexer_ok l' \<and> input l' = input l \<and> position l + k \<le> position l')"


section \<open>The syntax tree (pkg/ast/ast.go)\<close>

text \<open>
  A Go interface value (\<open>ast.Expression\<close>, \<open>ast.Statement\<close>) or pointer that may be
  \<open>nil\<close> is an \<open>option\<close>; a slice is a list, the \<open>nil\<close> slice being the empty list. The
  fields of a node are the arguments of its constructor, in the order of the source's
  struct.
\<close>

datatype TypeSpec =
  TypeSpec string bool bool bool int "TypeSpec option" "TypeSpec option"
  \<comment> \<open>Name, IsPointer, IsSlice, IsArray, ArraySize, KeyType, ValueType\<close>

text \<open>
  The field \<open>Value interface{}\<close> of a literal holds an \<open>int64\<close>, a \<open>float64\<close>, a string,
  a bool or \<open>nil\<close>. A \<open>float64\<close> is kept as the text it was converted from.
\<close>

datatype LiteralValue =
  IntValue int | FloatValue string | StringValue string | BoolValue bool | NilValue

datatype Expression =
    BinaryExpr "Expression option" string "Expression option"
  | UnaryExpr string "Expression option"
  | CallExpr "Expression option" "Expression option list"
  | Identifier string
  | LiteralExpr string LiteralValue
  | ArrayLiteral "Expression option list"
  | MapLiteral "(Expression option \<times> Expression option) list"
  | IndexExpr "Expression option" "Expression option"
  | SelectorExpr "Expression option" string

datatype Parameter = Parameter string "TypeSpec option"

datatype Field = Field string "TypeSpec option" string

datatype VarDecl = VarDecl string "TypeSpec option" "Expression option" bool

datatype Statement =
    FunctionDeclStmt "FunctionDecl option"
  | StructDeclStmt "StructDecl option"
  | VarDeclStmt "VarDecl option"
  | IfStmtStmt "IfStmt option"
  | ForStmtStmt "ForStmt option"
  | WhileStmtStmt "WhileStmt option"
  | ReturnStmtStmt "Expression option"
  | ExpressionStmtStmt "Expression option"
  | BlockStmtStmt BlockStmt
and FunctionDecl =
  FunctionDecl string "Parameter list" "TypeSpec option" BlockStmt "Parameter option"
and StructDecl =
  StructDecl string "Field list" "FunctionDecl list"
and IfStmt =
  IfStmt "Expression option" "Statement option" "Statement option"
and ForStmt =
  ForStmt "Statement option" "Expression option" "Statement option" BlockStmt
          bool string "Expression option"
and WhileStmt =
  WhileStmt "Expression option" BlockStmt
and BlockStmt =
  BlockStmt "Statement list"

record ImportDecl =
  Path :: string
  Alias :: string
  Items :: "string list"

record Program =
  Package :: string
  Imports :: "ImportDecl list"
  Statements :: "Statement list"

section \<open>The parser (pkg/parser/parser.go)\<close>

text \<open>
  The parser holds its lexer and calls \<open>l.NextToken()\<close> when it needs a token. Here the
  lexer is held as \<open>lx\<close>, the results that its next calls of \<open>NextToken\<close> return, in
  their order, tokens and panics; when the list is used up, every further call returns
  \<open>EOF\<close>. For a source text this is \<open>lexer_results\<close> below. The parser takes the results
  one at a time, as the source calls \<open>NextToken\<close>: a result that the parser does not get
  to has no effect.

  A panic of \<open>NextToken\<close> ends the run of the source, inside \<open>nextToken\<close>. The field
  \<open>panicked\<close>, which the source does not have, records it: \<open>nextToken\<close> sets it and
  leaves no result in \<open>lx\<close>, no function of the parser resets it, and \<open>ParseSource\<close>
  returns the panic in place of a program when it is set.
\<close>

record Parser =
  lx :: "(panic + Token) list"
  curToken :: Token
  peekToken :: Token
  errors :: "string list"
  panicked :: "panic option"

definition LOWEST :: int where "LOWEST = 1"
definition EQUALS :: int where "EQUALS = 2"
definition LESSGREATER :: int where "LESSGREATER = 3"
definition SUM' :: int where "SUM' = 4"
definition PRODUCT :: int where "PRODUCT = 5"
definition PREFIX :: int where "PREFIX = 6"
definition CALL :: int where "CALL = 7"
definition INDEX :: int where "INDEX = 8"

definition precedences :: "(TokenType \<times> int) list" where
  "precedences =
     [(EQ, EQUALS), (NOT_EQ, EQUALS), (LT, LESSGREATER), (GT, LESSGREATER),
      (LT_EQ, LESSGREATER), (GT_EQ, LESSGREATER), (PLUS, SUM'), (MINUS, SUM'),
      (DIVIDE, PRODUCT), (MULTIPLY, PRODUCT), (MODULO, PRODUCT), (POWER, PRODUCT),
      (LPAREN, CALL), (LBRACKET, INDEX), (DOT, INDEX)]"

definition zeroToken :: Token where
  "zeroToken = \<lparr>Type = ILLEGAL, Literal = [], Line = 0, Column = 0, Position = 0\<rparr>"

definition eofToken :: Token where
  "eofToken = \<lparr>Type = EOF, Literal = [], Line = 0, Column = 0, Position = 0\<rparr>"

text \<open>\<open>p.l.NextToken()\<close>: the next result, and the results after it.\<close>

definition lexerNextToken ::
  "(panic + Token) list \<Rightarrow> (panic + Token) \<times> (panic + Token) list" where
  "lexerNextToken rs = (case rs of [] \<Rightarrow> (Inr eofToken, []) | r # rs' \<Rightarrow> (r, rs'))"

text \<open>The loop \<open>for p.peekToken.Type == lexer.COMMENT { p.peekToken = p.l.NextToken() }\<close>
  of \<open>nextToken\<close>, from the result \<open>r\<close> of the call before it.\<close>

fun skipComments ::
  "panic + Token \<Rightarrow> (panic + Token) list \<Rightarrow> (panic + Token) \<times> (panic + Token) list" where
  "skipComments (Inl e) rs = (Inl e, rs)"
| "skipComments (Inr t) rs =
     (if Type t = COMMENT
      then (case rs of [] \<Rightarrow> (Inr eofToken, []) | r # rs' \<Rightarrow> skipComments r rs')
      else (Inr t, rs))"

declare skipComments.simps [simp del]

definition nextToken :: "Parser \<Rightarrow> Parser" where
  "nextToken p =
     (let (r, rs) = lexerNextToken (lx p);
          (r', rs') = skipComments r rs
      in case r' of
           Inr t \<Rightarrow> p\<lparr>curToken := peekToken p, peekToken := t, lx := rs'\<rparr>
         | Inl e \<Rightarrow>
             p\<lparr>curToken := peekToken p, peekToken := eofToken, lx := [],
               panicked := (case panicked p of None \<Rightarrow> Some e | Some e0 \<Rightarrow> Some e0)\<rparr>)"

definition New_Parser :: "(panic + Token) list \<Rightarrow> Parser" where
  "New_Parser rs =
     nextToken (nextToken \<lparr>lx = rs, curToken = zeroToken, peekToken = zeroToken, errors = [],
                            panicked = None\<rparr>)"

definition curTokenIs :: "TokenType \<Rightarrow> Parser \<Rightarrow> bool" where
  "curTokenIs t p = (Type (curToken p) = t)"

definition peekTokenIs :: "TokenType \<Rightarrow> Parser \<Rightarrow> bool" where
  "peekTokenIs t p = (Type (peekToken p) = t)"

definition peekError :: "TokenType \<Rightarrow> Parser \<Rightarrow> Parser" where
  "peekError t p =
     p\<lparr>errors := errors p @
        [''expected next token to be '' @ TokenTypeString t @ '', got '' @
         TokenTypeString (Type (peekToken p)) @ '' instead'']\<rparr>"

definition noPrefixParseFnError :: "TokenType \<Rightarrow> Parser \<Rightarrow> Parser" where
  "noPrefixParseFnError t p =
     p\<lparr>errors := errors p @
        [''no prefix parse function for '' @ TokenTypeString t @ '' found'']\<rparr>"

definition expectPeek :: "TokenType \<Rightarrow> Parser \<Rightarrow> bool \<times> Parser" where
  "expectPeek t p = (if peekTokenIs t p then (True, nextToken p) else (False, peekError t p))"

definition peekPrecedence :: "Parser \<Rightarrow> int" where
  "peekPrecedence p =
     (case map_of precedences (Type (peekToken p)) of Some pr \<Rightarrow> pr | None \<Rightarrow> LOWEST)"

definition curPrecedence :: "Parser \<Rightarrow> int" where
  "curPrecedence p =
     (case map_of precedences (Type (curToken p)) of Some pr \<Rightarrow> pr | None \<Rightarrow> LOWEST)"

text \<open>\<open>strconv.Atoi\<close>, whose error \<open>parseTypeSpec\<close> drops: 0 for a text that is no
  decimal number, the nearest \<open>int64\<close> for one out of range.\<close>

definition digitsValue :: "int \<Rightarrow> string \<Rightarrow> int" where
  "digitsValue base s = foldl (\<lambda>v c. v * base + (of_char c - 48)) 0 s"

definition Atoi :: "string \<Rightarrow> int" where
  "Atoi s =
     (let (neg, ds) = (case s of [] \<Rightarrow> (False, [])
                        | c # cs \<Rightarrow> if c = CHR ''-'' then (True, cs)
                                    else if c = CHR ''+'' then (False, cs) else (False, s))
      in if ds = [] \<or> \<not> list_all isDigit ds then 0
         else if neg then max (- digitsValue 10 ds) (- (2 ^ 63))
         else min (digitsValue 10 ds) (2 ^ 63 - 1))"

fun parseTypeSpec :: "nat \<Rightarrow> Parser \<Rightarrow> (TypeSpec option \<times> Parser) option" where
  "parseTypeSpec 0 p = None"
| "parseTypeSpec (Suc n) p0 =
     (let isPointer = curTokenIs MULTIPLY p0;
          p = (if isPointer then nextToken p0 else p0)
      in if curTokenIs LBRACKET p then
           (let p1 = nextToken p in
            if curTokenIs RBRACKET p1 then
              do {
                (valueType, p3) \<leftarrow> parseTypeSpec n (nextToken p1);
                Some (Some (TypeSpec [] isPointer True False 0 None valueType), p3)
              }
            else
              (let arraySize = (if curTokenIs INT' p1 then Atoi (Literal (curToken p1)) else 0) in
               case expectPeek RBRACKET p1 of
                 (False, p2) \<Rightarrow> Some (None, p2)
               | (True, p2) \<Rightarrow>
                   do {
                     (valueType, p4) \<leftarrow> parseTypeSpec n (nextToken p2);
                     Some (Some (TypeSpec [] isPointer False True arraySize None valueType), p4)
                   }))
         else if curTokenIs IDENT p \<and> Literal (curToken p) = ''map'' then
           (case expectPeek LBRACKET p of
              (False, p1) \<Rightarrow> Some (None, p1)
            | (True, p1) \<Rightarrow>
                do {
                  (keyType, p3) \<leftarrow> parseTypeSpec n (nextToken p1);
                  case expectPeek RBRACKET p3 of
                    (False, p4) \<Rightarrow> Some (None, p4)
                  | (True, p4) \<Rightarrow>
                      do {
                        (valueType, p6) \<leftarrow> parseTypeSpec n (nextToken p4);
                        Some (Some (TypeSpec [] isPointer False False 0 keyType valueType), p6)
                      }
                })
         else Some (Some (TypeSpec (Literal (curToken p)) isPointer False False 0 None None), p))"


text \<open>
  \<open>strconv.ParseInt(s, 0, 64)\<close> and \<open>strconv.ParseFloat(s, 64)\<close>, \<open>None\<close> for an error,
  on the texts that \<open>readNumber\<close> gives to its tokens: digits for \<open>INT\<close> (a leading 0
  makes the literal octal, where the digits 8 and 9 are a syntax error), and digits with an
  optional fraction and an optional exponent for \<open>FLOAT\<close>. Every other text is an error
  here; Go also accepts signs, base prefixes, underscores, hexadecimal floats, infinities
  and NaN, none of which the lexer puts into a number token. A value is out of range from
  \<open>2^63\<close> for \<open>ParseInt\<close>, and from \<open>2^1024 - 2^970\<close>, halfway between the largest
  \<open>float64\<close> and \<open>2^1024\<close>, for \<open>ParseFloat\<close>.
\<close>

definition ParseInt :: "string \<Rightarrow> int option" where
  "ParseInt s =
     (if s = [] \<or> \<not> list_all isDigit s then None
      else (let (base, ds) = (if hd s = CHR ''0'' then (8, tl s) else (10, s)) in
            if \<not> list_all (\<lambda>c. of_char c - 48 < base) ds then None
            else (let v = digitsValue base ds in
                  if v > 2 ^ 63 - 1 then None else Some v)))"

definition ParseFloat :: "string \<Rightarrow> string option" where
  "ParseFloat s =
     (let mant = takeWhile (\<lambda>c. c \<noteq> CHR ''e'' \<and> c \<noteq> CHR ''E'') s;
          ex = dropWhile (\<lambda>c. c \<noteq> CHR ''e'' \<and> c \<noteq> CHR ''E'') s;
          ip = takeWhile isDigit mant;
          fr = dropWhile isDigit mant;
          fp = (case fr of [] \<Rightarrow> Some []
                | c # ds \<Rightarrow> if c = CHR ''.'' \<and> list_all isDigit ds then Some ds else None);
          e = (case ex of [] \<Rightarrow> Some 0
               | c # r \<Rightarrow>
                   (let (neg, ds) = (case r of [] \<Rightarrow> (False, [])
                                     | d # ds' \<Rightarrow> if d = CHR ''-'' then (True, ds')
                                                 else if d = CHR ''+'' then (False, ds')
                                                 else (False, r))
                    in if ds = [] \<or> \<not> list_all isDigit ds then None
                       else Some (if neg then - digitsValue 10 ds
                                  else digitsValue 10 ds)))
      in case (fp, e) of
           (Some fd, Some ev) \<Rightarrow>
             if ip @ fd = [] then None
             else (let m = digitsValue 10 (ip @ fd); x = ev - int (length fd) in
                   if (if 0 \<le> x then m * 10 ^ nat x \<ge> 2 ^ 1024 - 2 ^ 970
                       else m \<ge> (2 ^ 1024 - 2 ^ 970) * 10 ^ nat (- x))
                   then None else Some s)
         | _ \<Rightarrow> None)"

definition quote :: "string \<Rightarrow> string" where
  "quote s = [DQUOTE] @ s @ [DQUOTE]"

definition parseIdentifier :: "Parser \<Rightarrow> Expression option \<times> Parser" where
  "parseIdentifier p = (Some (Identifier (Literal (curToken p))), p)"

definition parseIntegerLiteral :: "Parser \<Rightarrow> Expression option \<times> Parser" where
  "parseIntegerLiteral p =
     (case ParseInt (Literal (curToken p)) of
        None \<Rightarrow>
          (None, p\<lparr>errors := errors p @
             [''could not parse '' @ quote (Literal (curToken p)) @ '' as integer'']\<rparr>)
      | Some v \<Rightarrow> (Some (LiteralExpr ''int'' (IntValue v)), p))"

definition parseFloatLiteral :: "Parser \<Rightarrow> Expression option \<times> Parser" where
  "parseFloatLiteral p =
     (case ParseFloat (Literal (curToken p)) of
        None \<Rightarrow>
          (None, p\<lparr>errors := errors p @
             [''could not parse '' @ quote (Literal (curToken p)) @ '' as float'']\<rparr>)
      | Some v \<Rightarrow> (Some (LiteralExpr ''float'' (FloatValue v)), p))"

definition parseStringLiteral :: "Parser \<Rightarrow> Expression option \<times> Parser" where
  "parseStringLiteral p = (Some (LiteralExpr ''string'' (StringValue (Literal (curToken p)))), p)"

definition parseBooleanLiteral :: "Parser \<Rightarrow> Expression option \<times> Parser" where
  "parseBooleanLiteral p = (Some (LiteralExpr ''bool'' (BoolValue (curTokenIs TRUE p))), p)"

definition parseNilLiteral :: "Parser \<Rightarrow> Expression option \<times> Parser" where
  "parseNilLiteral p = (Some (LiteralExpr ''nil'' NilValue), p)"

definition parseSelectorExpression ::
  "Expression option \<Rightarrow> Parser \<Rightarrow> Expression option \<times> Parser" where
  "parseSelectorExpression left p =
     (case expectPeek IDENT p of
        (False, p1) \<Rightarrow> (None, p1)
      | (True, p1) \<Rightarrow> (Some (SelectorExpr left (Literal (curToken p1))), p1))"

datatype prefixParseFn =
    Fn_parseIdentifier | Fn_parseIntegerLiteral | Fn_parseFloatLiteral
  | Fn_parseStringLiteral | Fn_parseBooleanLiteral | Fn_parseNilLiteral
  | Fn_parsePrefixExpression | Fn_parseGroupedExpression | Fn_parseArrayLiteral
  | Fn_parseMapLiteral

datatype infixParseFn =
    Fn_parseInfixExpression | Fn_parseCallExpression | Fn_parseIndexExpression
  | Fn_parseSelectorExpression

definition prefixParseFns :: "(TokenType \<times> prefixParseFn) list" where
  "prefixParseFns =
     [(IDENT, Fn_parseIdentifier), (INT', Fn_parseIntegerLiteral),
      (FLOAT, Fn_parseFloatLiteral), (STRING, Fn_parseStringLiteral),
      (TRUE, Fn_parseBooleanLiteral), (FALSE, Fn_parseBooleanLiteral),
      (NIL, Fn_parseNilLiteral), (MINUS, Fn_parsePrefixExpression),
      (NOT, Fn_parsePrefixExpression), (LPAREN, Fn_parseGroupedExpression),
      (LBRACKET, Fn_parseArrayLiteral), (LBRACE, Fn_parseMapLiteral)]"

definition infixParseFns :: "(TokenType \<times> infixParseFn) list" where
  "infixParseFns =
     [(PLUS, Fn_parseInfixExpression), (MINUS, Fn_parseInfixExpression),
      (DIVIDE, Fn_parseInfixExpression), (MULTIPLY, Fn_parseInfixExpression),
      (MODULO, Fn_parseInfixExpression), (POWER, Fn_parseInfixExpression),
      (EQ, Fn_parseInfixExpression), (NOT_EQ, Fn_parseInfixExpression),
      (LT, Fn_parseInfixExpression), (GT, Fn_parseInfixExpression),
      (LT_EQ, Fn_parseInfixExpression), (GT_EQ, Fn_parseInfixExpression),
      (AND, Fn_parseInfixExpression), (OR, Fn_parseInfixExpression),
      (LPAREN, Fn_parseCallExpression), (LBRACKET, Fn_parseIndexExpression),
      (DOT, Fn_parseSelectorExpression)]"


text \<open>
  The parse functions of the source call each other recursively and loop. Here a parse
  function takes the parser state and returns its result with the new state; it takes as a
  first parameter \<open>parseExpression\<close>, or \<open>parseStatement\<close>, the function that it calls
  where the source calls the method of that name, and each loop counts its rounds down from
  a number \<open>k\<close>. \<open>parseExpression (Suc n)\<close> and \<open>parseStatement (Suc n)\<close> pass
  \<open>parseExpression n\<close> and \<open>parseStatement n\<close> on, so \<open>n\<close> bounds the depth of the
  recursion. The result \<open>None\<close> says that a bound was too small, and says nothing of the
  source: \<open>ParseProgram_returns\<close> shows that the bounds the model starts with are large
  enough, and \<open>ParseProgram_fuel\<close> that larger ones give the same result. Go's call
  stack, which bounds the depth of the recursion in a run of the source, is not modelled.
\<close>

type_synonym 'a parse = "Parser \<Rightarrow> ('a \<times> Parser) option"

definition parsePrefixExpression ::
  "(int \<Rightarrow> Expression option parse) \<Rightarrow> Expression option parse" where
  "parsePrefixExpression parseExpression p =
     (let operator = Literal (curToken p) in
      do {
        (operand, p2) \<leftarrow> parseExpression PREFIX (nextToken p);
        Some (Some (UnaryExpr operator operand), p2)
      })"

definition parseInfixExpression ::
  "(int \<Rightarrow> Expression option parse) \<Rightarrow> Expression option \<Rightarrow> Expression option parse" where
  "parseInfixExpression parseExpression left p =
     (let operator = Literal (curToken p); precedence = curPrecedence p in
      do {
        (right, p2) \<leftarrow> parseExpression precedence (nextToken p);
        Some (Some (BinaryExpr left operator right), p2)
      })"

definition parseGroupedExpression ::
  "(int \<Rightarrow> Expression option parse) \<Rightarrow> Expression option parse" where
  "parseGroupedExpression parseExpression p =
     do {
       (exp, p2) \<leftarrow> parseExpression LOWEST (nextToken p);
       case expectPeek RPAREN p2 of
         (False, p3) \<Rightarrow> Some (None, p3)
       | (True, p3) \<Rightarrow> Some (exp, p3)
     }"

primrec parseExpressionList_loop ::
  "nat \<Rightarrow> (int \<Rightarrow> Expression option parse) \<Rightarrow> TokenType \<Rightarrow> Expression option list
     \<Rightarrow> Expression option list parse" where
  "parseExpressionList_loop 0 parseExpression end args p = None"
| "parseExpressionList_loop (Suc k) parseExpression end args p =
     (if peekTokenIs COMMA p
      then do {
             (e, p3) \<leftarrow> parseExpression LOWEST (nextToken (nextToken p));
             parseExpressionList_loop k parseExpression end (args @ [e]) p3
           }
      else (case expectPeek end p of
              (False, p1) \<Rightarrow> Some ([], p1)
            | (True, p1) \<Rightarrow> Some (args, p1)))"

definition parseExpressionList ::
  "nat \<Rightarrow> (int \<Rightarrow> Expression option parse) \<Rightarrow> TokenType \<Rightarrow> Expression option list parse" where
  "parseExpressionList n parseExpression end p =
     (if peekTokenIs end p then Some ([], nextToken p)
      else do {
             (e, p2) \<leftarrow> parseExpression LOWEST (nextToken p);
             parseExpressionList_loop n parseExpression end [e] p2
           })"

definition parseArrayLiteral ::
  "nat \<Rightarrow> (int \<Rightarrow> Expression option parse) \<Rightarrow> Expression option parse" where
  "parseArrayLiteral n parseExpression p =
     do {
       (elements, p1) \<leftarrow> parseExpressionList n parseExpression RBRACKET p;
       Some (Some (ArrayLiteral elements), p1)
     }"

primrec parseMapLiteral_loop ::
  "nat \<Rightarrow> (int \<Rightarrow> Expression option parse)
     \<Rightarrow> (Expression option \<times> Expression option) list \<Rightarrow> Expression option parse" where
  "parseMapLiteral_loop 0 parseExpression pairs p = None"
| "parseMapLiteral_loop (Suc k) parseExpression pairs p =
     do {
       (key, p1) \<leftarrow> parseExpression LOWEST p;
       case expectPeek COLON p1 of
         (False, p2) \<Rightarrow> Some (None, p2)
       | (True, p2) \<Rightarrow>
           do {
             (val, p4) \<leftarrow> parseExpression LOWEST (nextToken p2);
             if \<not> peekTokenIs COMMA p4
             then (case expectPeek RBRACE p4 of
                     (False, p5) \<Rightarrow> Some (None, p5)
                   | (True, p5) \<Rightarrow> Some (Some (MapLiteral (pairs @ [(key, val)])), p5))
             else parseMapLiteral_loop k parseExpression (pairs @ [(key, val)])
                    (nextToken (nextToken p4))
           }
     }"

definition parseMapLiteral ::
  "nat \<Rightarrow> (int \<Rightarrow> Expression option parse) \<Rightarrow> Expression option parse" where
  "parseMapLiteral n parseExpression p =
     (if peekTokenIs RBRACE p then Some (Some (MapLiteral []), nextToken p)
      else parseMapLiteral_loop n parseExpression [] (nextToken p))"

definition parseCallExpression ::
  "nat \<Rightarrow> (int \<Rightarrow> Expression option parse) \<Rightarrow> Expression option \<Rightarrow> Expression option parse"
  where
  "parseCallExpression n parseExpression fn p =
     do {
       (arguments, p1) \<leftarrow> parseExpressionList n parseExpression RPAREN p;
       Some (Some (CallExpr fn arguments), p1)
     }"

definition parseIndexExpression ::
  "(int \<Rightarrow> Expression option parse) \<Rightarrow> Expression option \<Rightarrow> Expression option parse" where
  "parseIndexExpression parseExpression left p =
     do {
       (index, p2) \<leftarrow> parseExpression LOWEST (nextToken p);
       case expectPeek RBRACKET p2 of
         (False, p3) \<Rightarrow> Some (None, p3)
       | (True, p3) \<Rightarrow> Some (Some (IndexExpr left index), p3)
     }"

definition callPrefix ::
  "nat \<Rightarrow> (int \<Rightarrow> Expression option parse) \<Rightarrow> prefixParseFn \<Rightarrow> Expression option parse" where
  "callPrefix n parseExpression fn p =
     (case fn of
        Fn_parseIdentifier \<Rightarrow> Some (parseIdentifier p)
      | Fn_parseIntegerLiteral \<Rightarrow> Some (parseIntegerLiteral p)
      | Fn_parseFloatLiteral \<Rightarrow> Some (parseFloatLiteral p)
      | Fn_parseStringLiteral \<Rightarrow> Some (parseStringLiteral p)
      | Fn_parseBooleanLiteral \<Rightarrow> Some (parseBooleanLiteral p)
      | Fn_parseNilLiteral \<Rightarrow> Some (parseNilLiteral p)
      | Fn_parsePrefixExpression \<Rightarrow> parsePrefixExpression parseExpression p
      | Fn_parseGroupedExpression \<Rightarrow> parseGroupedExpression parseExpression p
      | Fn_parseArrayLiteral \<Rightarrow> parseArrayLiteral n parseExpression p
      | Fn_parseMapLiteral \<Rightarrow> parseMapLiteral n parseExpression p)"

definition callInfix ::
  "nat \<Rightarrow> (int \<Rightarrow> Expression option parse) \<Rightarrow> infixParseFn \<Rightarrow> Expression option
     \<Rightarrow> Expression option parse" where
  "callInfix n parseExpression fn left p =
     (case fn of
        Fn_parseInfixExpression \<Rightarrow> parseInfixExpression parseExpression left p
      | Fn_parseCallExpression \<Rightarrow> parseCallExpression n parseExpression left p
      | Fn_parseIndexExpression \<Rightarrow> parseIndexExpression parseExpression left p
      | Fn_parseSelectorExpression \<Rightarrow> Some (parseSelectorExpression left p))"

primrec parseExpression_loop ::
  "nat \<Rightarrow> nat \<Rightarrow> (int \<Rightarrow> Expression option parse) \<Rightarrow> int \<Rightarrow> Expression option
     \<Rightarrow> Expression option parse" where
  "parseExpression_loop 0 n parseExpression precedence leftExp p = None"
| "parseExpression_loop (Suc k) n parseExpression precedence leftExp p =
     (if \<not> peekTokenIs NEWLINE p \<and> \<not> peekTokenIs EOF p \<and> \<not> peekTokenIs INDENT p
         \<and> \<not> peekTokenIs DEDENT p \<and> precedence < peekPrecedence p
      then (case map_of infixParseFns (Type (peekToken p)) of
              None \<Rightarrow> Some (leftExp, p)
            | Some infix \<Rightarrow>
                do {
                  (leftExp', p1) \<leftarrow> callInfix n parseExpression infix leftExp (nextToken p);
                  parseExpression_loop k n parseExpression precedence leftExp' p1
                })
      else Some (leftExp, p))"

primrec parseExpression :: "nat \<Rightarrow> int \<Rightarrow> Expression option parse" where
  "parseExpression 0 precedence p = None"
| "parseExpression (Suc n) precedence p =
     (case map_of prefixParseFns (Type (curToken p)) of
        None \<Rightarrow> Some (None, noPrefixParseFnError (Type (curToken p)) p)
      | Some prefix \<Rightarrow>
          do {
            (leftExp, p1) \<leftarrow> callPrefix (Suc n) (parseExpression n) prefix p;
            parseExpression_loop (Suc n) (Suc n) (parseExpression n) precedence leftExp p1
          })"


text \<open>
  How far the parser is from the end of its token stream: three for each result the lexer
  still holds, two for a lookahead token and one for a current token that is not \<open>EOF\<close>.
  Every \<open>nextToken\<close> lowers it, unless it is 0 already.
\<close>

definition remaining :: "Parser \<Rightarrow> nat" where
  "remaining p =
     3 * length (lx p) + (if Type (peekToken p) = EOF then 0 else 2)
       + (if Type (curToken p) = EOF then 0 else 1)"

lemma skipComments_length:
  "3 * length (snd (skipComments r rs))
     + (case fst (skipComments r rs) of Inl e \<Rightarrow> 0 | Inr t \<Rightarrow> if Type t = EOF then 0 else 2)
     \<le> 3 * length rs + 2"
proof (induction r rs rule: skipComments.induct)
  case (1 e rs)
  show ?case by (simp add: skipComments.simps)
next
  case (2 t rs)
  show ?case
  proof (cases "Type t = COMMENT")
    case False
    then show ?thesis by (simp add: skipComments.simps)
  next
    case True
    show ?thesis
    proof (cases rs)
      case Nil
      then show ?thesis using True by (simp add: skipComments.simps eofToken_def)
    next
      case (Cons r' rs')
      then show ?thesis using True 2[OF True Cons] by (simp add: skipComments.simps)
    qed
  qed
qed

lemma skipComments_EOF:
  "skipComments (Inr eofToken) [] = (Inr eofToken, [])"
  by (simp add: skipComments.simps eofToken_def)

lemma remaining_nextToken: "remaining (nextToken p) \<le> remaining p - 1"
proof (cases "lx p")
  case Nil
  then show ?thesis
    by (simp add: remaining_def nextToken_def lexerNextToken_def skipComments_EOF)
       (simp add: eofToken_def)
next
  case (Cons r rs)
  obtain r' rs' where s: "skipComments r rs = (r', rs')" by (cases "skipComments r rs")
  have l: "3 * length rs'
      + (case r' of Inl e \<Rightarrow> 0 | Inr t \<Rightarrow> if Type t = EOF then 0 else 2) \<le> 3 * length rs + 2"
    using skipComments_length[of r rs] s by simp
  show ?thesis
  proof (cases r')
    case (Inl e)
    then show ?thesis using Cons s
      by (simp add: remaining_def nextToken_def lexerNextToken_def eofToken_def)
  next
    case (Inr t)
    then show ?thesis using Cons s l
      by (simp add: remaining_def nextToken_def lexerNextToken_def split: if_splits)
  qed
qed

lemma remaining_nextToken_le: "remaining (nextToken p) \<le> remaining p"
  using remaining_nextToken[of p] by arith

lemma remaining_nextToken_less: "0 < remaining p \<Longrightarrow> remaining (nextToken p) < remaining p"
  using remaining_nextToken[of p] by simp

lemma remaining_peek: "Type (peekToken p) \<noteq> EOF \<Longrightarrow> 2 \<le> remaining p"
  by (simp add: remaining_def)

lemma remaining_cur: "Type (curToken p) \<noteq> EOF \<Longrightarrow> 1 \<le> remaining p"
  by (simp add: remaining_def)

text \<open>The loops \<open>for p.peekTokenIs(NEWLINE) { p.nextToken() }\<close> and
  \<open>for p.curTokenIs(NEWLINE) { p.nextToken() }\<close> of the source.\<close>

function skipNewlines_peek :: "Parser \<Rightarrow> Parser" where
  "skipNewlines_peek p = (if peekTokenIs NEWLINE p then skipNewlines_peek (nextToken p) else p)"
  by pat_completeness auto
termination
proof (relation "measure remaining")
  show "wf (measure remaining)" by simp
next
  fix p assume "peekTokenIs NEWLINE p"
  then have "0 < remaining p" by (simp add: peekTokenIs_def remaining_def)
  then show "(nextToken p, p) \<in> measure remaining" by (simp add: remaining_nextToken_less)
qed

declare skipNewlines_peek.simps [simp del]

function skipNewlines_cur :: "Parser \<Rightarrow> Parser" where
  "skipNewlines_cur p = (if curTokenIs NEWLINE p then skipNewlines_cur (nextToken p) else p)"
  by pat_completeness auto
termination
proof (relation "measure remaining")
  show "wf (measure remaining)" by simp
next
  fix p assume "curTokenIs NEWLINE p"
  then have "0 < remaining p" by (simp add: curTokenIs_def remaining_def)
  then show "(nextToken p, p) \<in> measure remaining" by (simp add: remaining_nextToken_less)
qed

declare skipNewlines_cur.simps [simp del]


subsection \<open>Declarations and statements\<close>

text \<open>
  A parameter: its name is the text of the current token, its type follows when the next
  token is an identifier. The source has this block twice in \<open>parseFunctionParameters\<close>.
\<close>

definition parseParameter :: "nat \<Rightarrow> Parameter parse" where
  "parseParameter n p =
     (let name = Literal (curToken p) in
      if peekTokenIs IDENT p
      then do {
             (t, p2) \<leftarrow> parseTypeSpec n (nextToken p);
             Some (Parameter name t, p2)
           }
      else Some (Parameter name None, p))"

primrec parseFunctionParameters_loop ::
  "nat \<Rightarrow> nat \<Rightarrow> Parameter list \<Rightarrow> Parameter list parse" where
  "parseFunctionParameters_loop 0 n params p = None"
| "parseFunctionParameters_loop (Suc k) n params p =
     (if peekTokenIs COMMA p
      then do {
             (param, p2) \<leftarrow> parseParameter n (nextToken (nextToken p));
             parseFunctionParameters_loop k n (params @ [param]) p2
           }
      else Some (params, p))"

definition parseFunctionParameters :: "nat \<Rightarrow> Parameter list parse" where
  "parseFunctionParameters n p =
     (if peekTokenIs RPAREN p then Some ([], p)
      else do {
             (param, p2) \<leftarrow> parseParameter n (nextToken p);
             parseFunctionParameters_loop n n [param] p2
           })"

definition parseVarDeclaration :: "nat \<Rightarrow> VarDecl option parse" where
  "parseVarDeclaration n p =
     (if curTokenIs VAR p then
        (case expectPeek IDENT p of
           (False, p1) \<Rightarrow> Some (None, p1)
         | (True, p1) \<Rightarrow>
             (let name = Literal (curToken p1) in
              if peekTokenIs IDENT p1 then
                do {
                  (t, p3) \<leftarrow> parseTypeSpec n (nextToken p1);
                  case expectPeek ASSIGN p3 of
                    (False, p4) \<Rightarrow> Some (None, p4)
                  | (True, p4) \<Rightarrow>
                      do {
                        (v, p6) \<leftarrow> parseExpression n LOWEST (nextToken p4);
                        Some (Some (VarDecl name t v False), p6)
                      }
                }
              else if peekTokenIs ASSIGN p1 then
                do {
                  (v, p4) \<leftarrow> parseExpression n LOWEST (nextToken (nextToken p1));
                  Some (Some (VarDecl name None v False), p4)
                }
              else Some (Some (VarDecl name None None False), p1)))
      else if curTokenIs IDENT p then
        (let name = Literal (curToken p) in
         if peekTokenIs WALRUS p then
           do {
             (v, p3) \<leftarrow> parseExpression n LOWEST (nextToken (nextToken p));
             Some (Some (VarDecl name None v True), p3)
           }
         else if peekTokenIs ASSIGN p then
           do {
             (v, p3) \<leftarrow> parseExpression n LOWEST (nextToken (nextToken p));
             Some (Some (VarDecl name None v False), p3)
           }
         else Some (Some (VarDecl name None None False), p))
      else Some (Some (VarDecl [] None None False), p))"

definition parseReturnStatement :: "nat \<Rightarrow> Expression option parse" where
  "parseReturnStatement n p =
     (if \<not> peekTokenIs NEWLINE p \<and> \<not> peekTokenIs EOF p
      then parseExpression n LOWEST (nextToken p)
      else Some (None, p))"

definition parseExpressionStatement :: "nat \<Rightarrow> Expression option parse" where
  "parseExpressionStatement n p = parseExpression n LOWEST p"

text \<open>
  \<open>stmt != nil\<close> in the loops of \<open>parseBlockStatement\<close> and \<open>ParseProgram\<close> compares an
  interface value that \<open>parseStatement\<close> built from a typed pointer; such a value is never
  \<open>nil\<close> in Go, also when the pointer is, so every statement is appended.
\<close>

primrec parseBlockStatement_loop ::
  "nat \<Rightarrow> Statement parse \<Rightarrow> Statement list \<Rightarrow> BlockStmt parse" where
  "parseBlockStatement_loop 0 parseStatement stmts p = None"
| "parseBlockStatement_loop (Suc k) parseStatement stmts p =
     (if \<not> curTokenIs EOF p then
        (if curTokenIs NEWLINE p
         then parseBlockStatement_loop k parseStatement stmts (nextToken p)
         else if curTokenIs FUNC p then Some (BlockStmt stmts, p)
         else do {
                (stmt, p1) \<leftarrow> parseStatement p;
                parseBlockStatement_loop k parseStatement (stmts @ [stmt])
                  (if \<not> curTokenIs EOF p1 then nextToken p1 else p1)
              })
      else Some (BlockStmt stmts, p))"

definition parseBlockStatement :: "nat \<Rightarrow> Statement parse \<Rightarrow> BlockStmt parse" where
  "parseBlockStatement n parseStatement p = parseBlockStatement_loop n parseStatement [] p"

definition parseFunctionDeclaration ::
  "nat \<Rightarrow> Statement parse \<Rightarrow> FunctionDecl option parse" where
  "parseFunctionDeclaration n parseStatement p =
     (case expectPeek IDENT p of
        (False, p1) \<Rightarrow> Some (None, p1)
      | (True, p1) \<Rightarrow>
          (let name = Literal (curToken p1) in
           case expectPeek LPAREN p1 of
             (False, p2) \<Rightarrow> Some (None, p2)
           | (True, p2) \<Rightarrow>
               do {
                 (params, p3) \<leftarrow> parseFunctionParameters n p2;
                 case expectPeek RPAREN p3 of
                   (False, p4) \<Rightarrow> Some (None, p4)
                 | (True, p4) \<Rightarrow>
                     do {
                       (returnType, p5) \<leftarrow>
                         (if peekTokenIs IDENT p4 \<or> peekTokenIs LPAREN p4
                          then parseTypeSpec n (nextToken p4) else Some (None, p4));
                       case expectPeek COLON p5 of
                         (False, p6) \<Rightarrow> Some (None, p6)
                       | (True, p6) \<Rightarrow>
                           do {
                             (body, p8) \<leftarrow>
                               parseBlockStatement n parseStatement (skipNewlines_peek p6);
                             Some (Some (FunctionDecl name params returnType body None), p8)
                           }
                     }
               }))"

primrec parseStructDeclaration_loop ::
  "nat \<Rightarrow> nat \<Rightarrow> Statement parse \<Rightarrow> string \<Rightarrow> Field list \<Rightarrow> FunctionDecl list
     \<Rightarrow> StructDecl option parse" where
  "parseStructDeclaration_loop 0 n parseStatement name flds methods p = None"
| "parseStructDeclaration_loop (Suc k) n parseStatement name flds methods p =
     (if \<not> curTokenIs EOF p \<and> curTokenIs IDENT p \<or> curTokenIs FUNC p then
        (if curTokenIs NEWLINE p
         then parseStructDeclaration_loop k n parseStatement name flds methods (nextToken p)
         else if curTokenIs FUNC p then
           do {
             (method, p1) \<leftarrow> parseFunctionDeclaration n parseStatement p;
             parseStructDeclaration_loop k n parseStatement name flds
               (case method of
                  None \<Rightarrow> methods
                | Some (FunctionDecl mname params returnType body receiver) \<Rightarrow>
                    methods @ [FunctionDecl mname params returnType body
                       (Some (Parameter ''self''
                          (Some (TypeSpec name False False False 0 None None))))])
               (nextToken p1)
           }
         else if curTokenIs IDENT p then
           (let fname = Literal (curToken p); p1 = nextToken p in
            do {
              (t, p2) \<leftarrow> (if curTokenIs IDENT p1 then parseTypeSpec n p1 else Some (None, p1));
              parseStructDeclaration_loop k n parseStatement name (flds @ [Field fname t []])
                methods (nextToken p2)
            })
         else parseStructDeclaration_loop k n parseStatement name flds methods (nextToken p))
      else Some (Some (StructDecl name flds methods), p))"

definition parseStructDeclaration :: "nat \<Rightarrow> Statement parse \<Rightarrow> StructDecl option parse" where
  "parseStructDeclaration n parseStatement p =
     (case expectPeek IDENT p of
        (False, p1) \<Rightarrow> Some (None, p1)
      | (True, p1) \<Rightarrow>
          (let name = Literal (curToken p1) in
           case expectPeek COLON p1 of
             (False, p2) \<Rightarrow> Some (None, p2)
           | (True, p2) \<Rightarrow>
               parseStructDeclaration_loop n n parseStatement name [] []
                 (skipNewlines_peek p2)))"

primrec parseIfStatement :: "nat \<Rightarrow> nat \<Rightarrow> Statement parse \<Rightarrow> IfStmt option parse" where
  "parseIfStatement 0 n parseStatement p = None"
| "parseIfStatement (Suc k) n parseStatement p =
     do {
       (condition, p1) \<leftarrow> parseExpression n LOWEST (nextToken p);
       case expectPeek COLON p1 of
         (False, p2) \<Rightarrow> Some (None, p2)
       | (True, p2) \<Rightarrow>
           do {
             (thenBranch, p4) \<leftarrow> parseBlockStatement n parseStatement (skipNewlines_peek p2);
             if peekTokenIs ELIF p4 \<or> peekTokenIs ELSE p4 then
               (let p5 = nextToken p4 in
                if curTokenIs ELIF p5 then
                  do {
                    (elseBranch, p6) \<leftarrow> parseIfStatement k n parseStatement p5;
                    Some (Some (IfStmt condition (Some (BlockStmtStmt thenBranch))
                                  (Some (IfStmtStmt elseBranch))), p6)
                  }
                else
                  (case expectPeek COLON p5 of
                     (False, p6) \<Rightarrow> Some (None, p6)
                   | (True, p6) \<Rightarrow>
                       do {
                         (elseBranch, p8) \<leftarrow>
                           parseBlockStatement n parseStatement (skipNewlines_peek p6);
                         Some (Some (IfStmt condition (Some (BlockStmtStmt thenBranch))
                                       (Some (BlockStmtStmt elseBranch))), p8)
                       }))
             else Some (Some (IfStmt condition (Some (BlockStmtStmt thenBranch)) None), p4)
           }
     }"

text \<open>
  The head of a \<open>for\<close> statement, up to the colon: \<open>None\<close> where the source returns
  \<open>nil\<close> from \<open>parseForStatement\<close>, else the fields \<open>Init\<close>, \<open>Condition\<close>, \<open>Update\<close>,
  \<open>IsRange\<close>, \<open>RangeVar\<close> and \<open>RangeExpr\<close> set so far.
\<close>

definition parseForHead ::
  "nat \<Rightarrow> Statement parse
     \<Rightarrow> (Statement option \<times> Expression option \<times> Statement option \<times> bool \<times> string
          \<times> Expression option) option parse" where
  "parseForHead n parseStatement p1 =
     (if peekTokenIs IN p1 then
        (let rangeVar = Literal (curToken p1) in
         do {
           (rangeExpr, p3) \<leftarrow> parseExpression n LOWEST (nextToken (nextToken p1));
           Some (Some (None, None, None, True, rangeVar, rangeExpr), p3)
         })
      else
        do {
          (init, p2) \<leftarrow> parseStatement p1;
          case expectPeek SEMICOLON p2 of
            (False, p3) \<Rightarrow> Some (None, p3)
          | (True, p3) \<Rightarrow>
              do {
                (condition, p5) \<leftarrow> parseExpression n LOWEST (nextToken p3);
                case expectPeek SEMICOLON p5 of
                  (False, p6) \<Rightarrow> Some (None, p6)
                | (True, p6) \<Rightarrow>
                    do {
                      (update, p8) \<leftarrow> parseStatement (nextToken p6);
                      Some (Some (Some init, condition, Some update, False, [], None), p8)
                    }
              }
        })"

definition parseForStatement :: "nat \<Rightarrow> Statement parse \<Rightarrow> ForStmt option parse" where
  "parseForStatement n parseStatement p =
     do {
       (head, p2) \<leftarrow> parseForHead n parseStatement (nextToken p);
       case head of
         None \<Rightarrow> Some (None, p2)
       | Some (init, condition, update, isRange, rangeVar, rangeExpr) \<Rightarrow>
           (case expectPeek COLON p2 of
              (False, p3) \<Rightarrow> Some (None, p3)
            | (True, p3) \<Rightarrow>
                do {
                  (body, p5) \<leftarrow> parseBlockStatement n parseStatement (skipNewlines_peek p3);
                  Some (Some (ForStmt init condition update body isRange rangeVar rangeExpr), p5)
                })
     }"

definition parseWhileStatement :: "nat \<Rightarrow> Statement parse \<Rightarrow> WhileStmt option parse" where
  "parseWhileStatement n parseStatement p =
     do {
       (condition, p1) \<leftarrow> parseExpression n LOWEST (nextToken p);
       case expectPeek COLON p1 of
         (False, p2) \<Rightarrow> Some (None, p2)
       | (True, p2) \<Rightarrow>
           do {
             (body, p4) \<leftarrow> parseBlockStatement n parseStatement (skipNewlines_peek p2);
             Some (Some (WhileStmt condition body), p4)
           }
     }"

text \<open>\<open>wrap f m\<close> is the result \<open>m\<close> of a parse function converted to a statement.\<close>

definition wrap :: "('a \<Rightarrow> Statement) \<Rightarrow> ('a \<times> Parser) option \<Rightarrow> (Statement \<times> Parser) option"
  where
  "wrap f m = (case m of None \<Rightarrow> None | Some (r, p) \<Rightarrow> Some (f r, p))"

primrec parseStatement :: "nat \<Rightarrow> Statement parse" where
  "parseStatement 0 p = None"
| "parseStatement (Suc n) p =
     (let t = Type (curToken p) in
      if t = FUNC then
        wrap FunctionDeclStmt (parseFunctionDeclaration (Suc n) (parseStatement n) p)
      else if t = STRUCT then
        wrap StructDeclStmt (parseStructDeclaration (Suc n) (parseStatement n) p)
      else if t = VAR then wrap VarDeclStmt (parseVarDeclaration (Suc n) p)
      else if t = IF then
        wrap IfStmtStmt (parseIfStatement (Suc n) (Suc n) (parseStatement n) p)
      else if t = FOR then
        wrap ForStmtStmt (parseForStatement (Suc n) (parseStatement n) p)
      else if t = WHILE then
        wrap WhileStmtStmt (parseWhileStatement (Suc n) (parseStatement n) p)
      else if t = RETURN then wrap ReturnStmtStmt (parseReturnStatement (Suc n) p)
      else if t = IDENT then
        (if peekTokenIs WALRUS p \<or> peekTokenIs ASSIGN p
         then wrap VarDeclStmt (parseVarDeclaration (Suc n) p)
         else wrap ExpressionStmtStmt (parseExpressionStatement (Suc n) p))
      else wrap ExpressionStmtStmt (parseExpressionStatement (Suc n) p))"

subsection \<open>Imports (pkg/stdlib/aliases.go) and the program\<close>

definition ImportAliases :: "(string \<times> string) list" where
  "ImportAliases =
    [(''json'', ''encoding/json''), (''base64'', ''encoding/base64''),
     (''hex'', ''encoding/hex''), (''xml'', ''encoding/xml''), (''csv'', ''encoding/csv''),
     (''fs'', ''io/fs''), (''io'', ''io''), (''ioutil'', ''io/ioutil''),
     (''path'', ''path''), (''filepath'', ''path/filepath''), (''os'', ''os''),
     (''http'', ''net/http''), (''url'', ''net/url''), (''net'', ''net''),
     (''mail'', ''net/mail''), (''crypto'', ''crypto''), (''md5'', ''crypto/md5''),
     (''sha1'', ''crypto/sha1''), (''sha256'', ''crypto/sha256''),
     (''rand'', ''crypto/rand''), (''tls'', ''crypto/tls''), (''time'', ''time''),
     (''strings'', ''strings''), (''strconv'', ''strconv''), (''regexp'', ''regexp''),
     (''math'', ''math''), (''big'', ''math/big''), (''rand_math'', ''math/rand''),
     (''gzip'', ''compress/gzip''), (''zip'', ''archive/zip''), (''tar'', ''archive/tar''),
     (''sql'', ''database/sql''), (''log'', ''log''), (''fmt'', ''fmt''),
     (''sync'', ''sync''), (''context'', ''context''), (''reflect'', ''reflect''),
     (''runtime'', ''runtime''), (''testing'', ''testing''), (''sort'', ''sort''),
     (''heap'', ''container/heap''), (''list'', ''container/list''),
     (''ring'', ''container/ring''), (''image'', ''image''), (''color'', ''image/color''),
     (''png'', ''image/png''), (''jpeg'', ''image/jpeg''), (''gif'', ''image/gif''),
     (''template'', ''text/template''), (''html_template'', ''html/template''),
     (''html'', ''html''), (''scanner'', ''text/scanner''),
     (''tabwriter'', ''text/tabwriter''), (''exec'', ''os/exec''),
     (''signal'', ''os/signal''), (''user'', ''os/user''), (''bytes'', ''bytes''),
     (''bufio'', ''bufio''), (''errors'', ''errors''), (''unicode'', ''unicode''),
     (''utf8'', ''unicode/utf8''), (''utf16'', ''unicode/utf16'')]"

definition GetRealPackagePath :: "string \<Rightarrow> string" where
  "GetRealPackagePath alias =
     (case map_of ImportAliases alias of Some realPath \<Rightarrow> realPath | None \<Rightarrow> alias)"

definition standardLibs :: "string list" where
  "standardLibs =
    [''os'', ''fmt'', ''time'', ''json'', ''math'', ''strings'', ''strconv'', ''io'',
     ''bufio'', ''net'', ''http'', ''url'', ''path'', ''filepath'', ''sort'', ''sync'',
     ''context'', ''errors'', ''log'', ''regexp'', ''crypto'', ''encoding'', ''database'',
     ''html'', ''image'', ''mime'', ''reflect'', ''runtime'', ''testing'', ''unsafe'']"

definition isStandardLibrary :: "string \<Rightarrow> bool" where
  "isStandardLibrary pkg = (pkg \<in> set standardLibs)"

text \<open>\<open>strings.Trim(s, cutset)\<close> for a cutset of one byte.\<close>

definition Trim :: "string \<Rightarrow> char \<Rightarrow> string" where
  "Trim s c = rev (dropWhile (\<lambda>x. x = c) (rev (dropWhile (\<lambda>x. x = c) s)))"

text \<open>The item loop of \<open>from "path" import a, b\<close>.\<close>

function parseImportItems :: "string list \<Rightarrow> Parser \<Rightarrow> string list \<times> Parser" where
  "parseImportItems items p =
     (let items' = (if curTokenIs IDENT p then items @ [Literal (curToken p)] else items) in
      if \<not> peekTokenIs COMMA p then (items', p)
      else parseImportItems items' (nextToken (nextToken p)))"
  by pat_completeness auto
termination
proof (relation "measure (\<lambda>(items, p). remaining p)")
  show "wf (measure (\<lambda>(items, p). remaining p))" by simp
next
  fix items :: "string list" and p items'
  assume "\<not> \<not> peekTokenIs COMMA p"
  then have "0 < remaining p" by (simp add: peekTokenIs_def remaining_def)
  then have "remaining (nextToken p) < remaining p" by (rule remaining_nextToken_less)
  moreover have "remaining (nextToken (nextToken p)) \<le> remaining (nextToken p)"
    by (rule remaining_nextToken_le)
  ultimately show "((items', nextToken (nextToken p)), (items, p))
      \<in> measure (\<lambda>(items, p). remaining p)" by simp
qed

declare parseImportItems.simps [simp del]

text \<open>The loop of \<open>import ("a", "b")\<close>.\<close>

function parseImportList :: "string list \<Rightarrow> Parser \<Rightarrow> string list \<times> Parser" where
  "parseImportList items p =
     (if \<not> curTokenIs RPAREN p \<and> \<not> curTokenIs EOF p then
        (let items' =
               (if curTokenIs STRING p
                then items @ [[DQUOTE] @ GetRealPackagePath (Trim (Literal (curToken p)) DQUOTE)
                                @ [DQUOTE]]
                else items);
             p1 = nextToken p
         in parseImportList items' (if curTokenIs COMMA p1 then nextToken p1 else p1))
      else (items, p))"
  by pat_completeness auto
termination
proof (relation "measure (\<lambda>(items, p). remaining p)")
  show "wf (measure (\<lambda>(items, p). remaining p))" by simp
next
  fix items :: "string list" and p items' p1
  assume a: "\<not> curTokenIs RPAREN p \<and> \<not> curTokenIs EOF p" and p1: "p1 = nextToken p"
  from a have "0 < remaining p" by (simp add: curTokenIs_def remaining_def)
  then have "remaining p1 < remaining p" unfolding p1 by (rule remaining_nextToken_less)
  moreover have "remaining (nextToken p1) \<le> remaining p1"
    by (rule remaining_nextToken_le)
  ultimately show "((items', if curTokenIs COMMA p1 then nextToken p1 else p1), (items, p))
      \<in> measure (\<lambda>(items, p). remaining p)" by simp
qed

declare parseImportList.simps [simp del]

definition parseImportDeclaration :: "Parser \<Rightarrow> ImportDecl option \<times> Parser" where
  "parseImportDeclaration p =
     (if curTokenIs FROM p then
        (let p1 = nextToken p in
         if \<not> curTokenIs STRING p1 then (None, p1)
         else
           (let path = Literal (curToken p1) in
            case expectPeek IMPORT (nextToken p1) of
              (False, p3) \<Rightarrow> (None, p3)
            | (True, p3) \<Rightarrow>
                (let (items, p5) = parseImportItems [] (nextToken p3)
                 in (Some \<lparr>Path = path, Alias = [], Items = items\<rparr>, p5))))
      else if curTokenIs IMPORT p then
        (let p1 = nextToken p in
         if curTokenIs LPAREN p1 then
           (let (items, p3) = parseImportList [] (nextToken p1)
            in (Some \<lparr>Path = [], Alias = [], Items = items\<rparr>, p3))
         else if curTokenIs STRING p1 then
           (let path = [DQUOTE] @ GetRealPackagePath (Trim (Literal (curToken p1)) DQUOTE)
                         @ [DQUOTE];
                p2 = nextToken p1
            in if curTokenIs IDENT p2 \<and> Literal (curToken p2) = ''as'' then
                 (let p3 = nextToken p2 in
                  (Some \<lparr>Path = path,
                          Alias = (if curTokenIs IDENT p3 then Literal (curToken p3) else []),
                          Items = []\<rparr>, p3))
               else (Some \<lparr>Path = path, Alias = [], Items = []\<rparr>, p2))
         else if curTokenIs IDENT p1 then
           (Some \<lparr>Path = (if isStandardLibrary (Literal (curToken p1))
                           then Literal (curToken p1) else Literal (curToken p1)),
                   Alias = [], Items = []\<rparr>, p1)
         else (Some \<lparr>Path = [], Alias = [], Items = []\<rparr>, p1))
      else (Some \<lparr>Path = [], Alias = [], Items = []\<rparr>, p))"


lemma remaining_peekError: "remaining (peekError t p) = remaining p"
  by (simp add: peekError_def remaining_def)

lemma remaining_expectPeek: "remaining (snd (expectPeek t p)) \<le> remaining p"
  by (simp add: expectPeek_def remaining_peekError remaining_nextToken_le)

lemma remaining_skipNewlines_cur: "remaining (skipNewlines_cur p) \<le> remaining p"
proof (induction p rule: skipNewlines_cur.induct)
  case (1 p)
  show ?case
  proof (cases "curTokenIs NEWLINE p")
    case True
    then show ?thesis
      using 1[OF True] remaining_nextToken_le[of p] by (subst skipNewlines_cur.simps) simp
  next
    case False
    then show ?thesis by (subst skipNewlines_cur.simps) simp
  qed
qed

lemma remaining_parseImportItems: "remaining (snd (parseImportItems items p)) \<le> remaining p"
proof (induction items p rule: parseImportItems.induct)
  case (1 items p)
  show ?case
  proof (cases "peekTokenIs COMMA p")
    case False
    then show ?thesis by (subst parseImportItems.simps) (simp add: Let_def)
  next
    case True
    have "remaining (nextToken (nextToken p)) \<le> remaining p"
      using remaining_nextToken_le[of p] remaining_nextToken_le[of "nextToken p"] by simp
    then show ?thesis
      using True 1[OF refl] by (subst parseImportItems.simps) (simp add: Let_def)
  qed
qed

lemma remaining_parseImportList: "remaining (snd (parseImportList items p)) \<le> remaining p"
proof (induction items p rule: parseImportList.induct)
  case (1 items p)
  show ?case
  proof (cases "\<not> curTokenIs RPAREN p \<and> \<not> curTokenIs EOF p")
    case False
    then show ?thesis by (subst parseImportList.simps) auto
  next
    case True
    define items' where "items' =
      (if curTokenIs STRING p
       then items @ [[DQUOTE] @ GetRealPackagePath (Trim (Literal (curToken p)) DQUOTE) @ [DQUOTE]]
       else items)"
    define p1 where "p1 = nextToken p"
    define p2 where "p2 = (if curTokenIs COMMA p1 then nextToken p1 else p1)"
    have "remaining p1 \<le> remaining p" unfolding p1_def by (rule remaining_nextToken_le)
    moreover have "remaining p2 \<le> remaining p1"
      unfolding p2_def by (simp add: remaining_nextToken_le)
    moreover have "remaining (snd (parseImportList items' p2)) \<le> remaining p2"
      unfolding p2_def using 1[OF True items'_def p1_def] .
    moreover have "parseImportList items p = parseImportList items' p2"
      using True unfolding p2_def p1_def items'_def
      by (subst parseImportList.simps) (simp add: Let_def)
    ultimately show ?thesis by simp
  qed
qed

lemma remaining_parseImportDeclaration:
  assumes "curTokenIs IMPORT p \<or> curTokenIs FROM p"
  shows "remaining (snd (parseImportDeclaration p)) < remaining p"
proof -
  from assms have pos: "0 < remaining p" by (auto simp: curTokenIs_def remaining_def)
  define p1 where "p1 = nextToken p"
  have lt: "remaining p1 < remaining p"
    unfolding p1_def using pos by (rule remaining_nextToken_less)
  have n1: "remaining (nextToken q) \<le> remaining q" for q
    using remaining_nextToken_le[of q] by simp
  have "remaining (snd (parseImportDeclaration p)) \<le> remaining p1"
  proof (cases "curTokenIs FROM p")
    case True
    have a: "remaining (snd (expectPeek IMPORT (nextToken p1))) \<le> remaining p1"
      using remaining_expectPeek[of IMPORT "nextToken p1"] n1[of p1] by simp
    have b: "remaining (snd (parseImportItems [] (nextToken (snd (expectPeek IMPORT (nextToken p1))))))
               \<le> remaining p1"
      using remaining_parseImportItems[of "[]" "nextToken (snd (expectPeek IMPORT (nextToken p1)))"]
        n1[of "snd (expectPeek IMPORT (nextToken p1))"] a by simp
    show ?thesis
      using True a b
      by (simp add: parseImportDeclaration_def Let_def p1_def[symmetric] case_prod_beta
          split: bool.splits prod.splits)
  next
    case False
    then have imp: "curTokenIs IMPORT p" using assms by simp
    have c: "remaining (snd (parseImportList [] (nextToken p1))) \<le> remaining p1"
      using remaining_parseImportList[of "[]" "nextToken p1"] n1[of p1] by simp
    have d: "remaining (nextToken (nextToken p1)) \<le> remaining p1"
      using n1[of p1] n1[of "nextToken p1"] by simp
    show ?thesis
      using False imp c d n1[of p1]
      by (simp add: parseImportDeclaration_def Let_def p1_def[symmetric] case_prod_beta)
  qed
  then show ?thesis using lt by simp
qed

text \<open>The import loop of \<open>ParseProgram\<close>.\<close>

lemma parseImports_term:
  assumes "curTokenIs IMPORT p \<or> curTokenIs FROM p" "parseImportDeclaration p = (d, p1)"
  shows "remaining (skipNewlines_cur p1) < remaining p"
  using remaining_parseImportDeclaration[OF assms(1)] assms(2)
    remaining_skipNewlines_cur[of p1] by simp

function parseImports :: "ImportDecl list \<Rightarrow> Parser \<Rightarrow> ImportDecl list \<times> Parser" where
  "parseImports imps p =
     (if curTokenIs IMPORT p \<or> curTokenIs FROM p then
        (case parseImportDeclaration p of
           (importDecl, p1) \<Rightarrow>
             parseImports
               (case importDecl of None \<Rightarrow> imps | Some d \<Rightarrow> imps @ [d])
               (skipNewlines_cur p1))
      else (imps, p))"
  by pat_completeness auto
termination
  apply (relation "measure (\<lambda>(imps, p). remaining p)")
   apply simp
  apply (auto intro: parseImports_term parseImports_term[OF _ sym])
  done

declare parseImports.simps [simp del]

primrec ParseProgram_loop :: "nat \<Rightarrow> nat \<Rightarrow> Statement list \<Rightarrow> Statement list parse" where
  "ParseProgram_loop 0 n stmts p = None"
| "ParseProgram_loop (Suc k) n stmts p =
     (if \<not> curTokenIs EOF p then
        (if curTokenIs NEWLINE p \<or> curTokenIs INDENT p \<or> curTokenIs DEDENT p
         then ParseProgram_loop k n stmts (nextToken p)
         else do {
                (stmt, p1) \<leftarrow> parseStatement n p;
                ParseProgram_loop k n (stmts @ [stmt])
                  (if \<not> curTokenIs EOF p1 then nextToken p1 else p1)
              })
      else Some (stmts, p))"

definition ParseProgram :: "nat \<Rightarrow> Program parse" where
  "ParseProgram n p0 =
     (let (package, p1) =
            (if curTokenIs PACKAGE p0
             then (let p = nextToken p0 in
                   if curTokenIs IDENT p then (Literal (curToken p), nextToken p) else ([], p))
             else (''main'', p0));
          (imps, p3) = parseImports [] (skipNewlines_cur p1)
      in do {
           (stmts, p4) \<leftarrow> ParseProgram_loop n n [] p3;
           Some (\<lparr>Package = package, Imports = imps, Statements = stmts\<rparr>, p4)
         })"


subsection \<open>Running the parser\<close>

text \<open>
  The results of the calls of \<open>NextToken\<close> on the lexer \<open>lexer.New(inp)\<close>, in their order:
  those of the first \<open>length inp\<close> calls; every further call returns \<open>EOF\<close> (see
  \<open>eof_at_end\<close> and \<open>C5_eof_forever\<close> below), as \<open>lexerNextToken\<close> does on the empty list.
\<close>

definition lexer_results :: "string \<Rightarrow> (panic + Token) list" where
  "lexer_results inp = tokens (length inp) (New inp)"

text \<open>
  \<open>parser.New(l).ParseProgram()\<close> on the results of a lexer, with the fuel that
  \<open>ParseProgram_returns\<close> below shows to be enough (more fuel gives the same result, see
  \<open>ParseProgram_fuel\<close>). Go's call stack bounds the depth of the recursion of the parse
  functions, which grows with the nesting of the input; the model has no such bound, and
  returns also where the run of the source ends in a stack overflow.

  \<open>ParseSource\<close> is \<open>parser.New(lexer.New(inp)).ParseProgram()\<close> with \<open>p.Errors()\<close>, as the
  tests and \<open>compileFile\<close> call it: the panic when a call of \<open>NextToken\<close> that the parser
  made has panicked, else the program and the errors.
\<close>

definition Parse :: "(panic + Token) list \<Rightarrow> (Program \<times> Parser) option" where
  "Parse rs = (let p = New_Parser rs in ParseProgram (Suc (remaining p)) p)"

definition ParseSource :: "string \<Rightarrow> panic + (Program \<times> string list) option" where
  "ParseSource inp =
     (case Parse (lexer_results inp) of
        None \<Rightarrow> Inr None
      | Some (prog, p) \<Rightarrow>
          (case panicked p of
             Some e \<Rightarrow> Inl e
           | None \<Rightarrow> Inr (Some (prog, errors p))))"

text \<open>A token of kind \<open>t\<close> with text \<open>s\<close>.\<close>

definition tok :: "TokenType \<Rightarrow> string \<Rightarrow> Token" where
  "tok t s = \<lparr>Type = t, Literal = s, Line = 1, Column = 1, Position = 0\<rparr>"

text \<open>Inputs: a function with an unterminated parameter list, and two struct declarations,
  the second one the input of \<open>TestStructDeclaration\<close> (tests/parser\_test.go).\<close>

definition unterminated_parameters :: string where
  "unterminated_parameters =
     ''func main('' @ [LF] @ ''    print('' @ [DQUOTE] @ ''x'' @ [DQUOTE] @ '')''"

definition struct_source :: string where
  "struct_source =
     ''struct Person:'' @ [LF] @ ''    name string'' @ [LF] @
     ''    func greet(self) string:'' @ [LF] @
     ''        return '' @ [DQUOTE] @ ''Hello'' @ [DQUOTE]"

definition test_struct_source :: string where
  "test_struct_source =
     ''struct Person:'' @ [LF] @ ''    name string'' @ [LF] @ ''    age int'' @ [LF] @
     ''    '' @ [LF] @ ''    func greet(self) string:'' @ [LF] @
     ''        return '' @ [DQUOTE] @ ''Hello'' @ [DQUOTE]"

text \<open>Shorthands for syntax trees: the function \<open>greet\<close> of the struct inputs, an integer
  literal, a binary expression, and the result of parsing a program of one expression
  statement without errors.\<close>

abbreviation greet :: Statement where
  "greet \<equiv> FunctionDeclStmt (Some (FunctionDecl ''greet'' [Parameter ''self'' None]
     (Some (TypeSpec ''string'' False False False 0 None None))
     (BlockStmt [ReturnStmtStmt (Some (LiteralExpr ''string'' (StringValue ''Hello'')))]) None))"

abbreviation lit :: "int \<Rightarrow> Expression option" where
  "lit v \<equiv> Some (LiteralExpr ''int'' (IntValue v))"

abbreviation bin :: "Expression option \<Rightarrow> string \<Rightarrow> Expression option \<Rightarrow> Expression option"
  where
  "bin l operator r \<equiv> Some (BinaryExpr l operator r)"

abbreviation expression_program ::
  "Expression option \<Rightarrow> panic + (Program \<times> string list) option" where
  "expression_program e \<equiv>
     Inr (Some (\<lparr>Package = ''main'', Imports = [], Statements = [ExpressionStmtStmt e]\<rparr>, []))"

text \<open>
  The operators that claim C1 names, as they are written, and \<open>tighter hi lo\<close>: between the
  operands 1, 2 and 3 the operator \<open>hi\<close> binds tighter than \<open>lo\<close>, on either side.
\<close>

definition additive :: "string list" where
  "additive = [''+'', ''-'']"

definition multiplicative :: "string list" where
  "multiplicative = [''*'', ''/'', ''%'', ''**'']"

definition relational :: "string list" where
  "relational = [''<'', ''>'', ''<='', ''>='']"

definition equality :: "string list" where
  "equality = [''=='', ''!='']"

definition tighter :: "string \<Rightarrow> string \<Rightarrow> bool" where
  "tighter hi lo =
     (ParseSource (''1 '' @ lo @ '' 2 '' @ hi @ '' 3'')
        = expression_program (bin (lit 1) lo (bin (lit 2) hi (lit 3)))
      \<and> ParseSource (''1 '' @ hi @ '' 2 '' @ lo @ '' 3'')
        = expression_program (bin (bin (lit 1) hi (lit 2)) lo (lit 3)))"

text \<open>
  More inputs: a source that ends in a backslash inside a string literal, one with an
  operator at the end of a line and one with a newline after the opening parenthesis of a
  call. \<open>kinds\<close> gives the kinds of the tokens among the results of a lexer.
\<close>

definition backslash_at_end :: string where
  "backslash_at_end = ''x := '' @ [DQUOTE] @ ''a'' @ [BACKSLASH]"



definition kinds :: "(panic + Token) list \<Rightarrow> (panic + TokenType) list" where
  "kinds rs = map (map_sum id Type) rs"

subsection \<open>What every parse function keeps\<close>

text \<open>
  No comment token is current or lookahead token, and no error reports a comment at the
  start of an expression.
\<close>

definition commentError :: string where
  "commentError = ''no prefix parse function for COMMENT found''"

definition noComment :: "Parser \<Rightarrow> bool" where
  "noComment p =
     (Type (curToken p) \<noteq> COMMENT \<and> Type (peekToken p) \<noteq> COMMENT
      \<and> commentError \<notin> set (errors p))"

text \<open>
  \<open>returns b m\<close>: the call \<open>m\<close> has returned, in a parser state that is at most \<open>b\<close> from
  the end of the token stream and has no comment token.
\<close>

definition returns :: "nat \<Rightarrow> ('a \<times> Parser) option \<Rightarrow> bool" where
  "returns b m = (case m of None \<Rightarrow> False | Some (r, p) \<Rightarrow> remaining p \<le> b \<and> noComment p)"

text \<open>
  The parse functions take \<open>parseExpression\<close> and \<open>parseStatement\<close> as a parameter; these
  are the assumptions on it: it returns on every state at most \<open>c\<close> from the end, no
  further from the end than it started.
\<close>

definition exprOK :: "nat \<Rightarrow> (int \<Rightarrow> Expression option parse) \<Rightarrow> bool" where
  "exprOK c pe =
     (\<forall>prec q. remaining q \<le> c \<longrightarrow> noComment q \<longrightarrow> returns (remaining q) (pe prec q))"

definition stmtOK :: "nat \<Rightarrow> Statement parse \<Rightarrow> bool" where
  "stmtOK c ps = (\<forall>q. remaining q \<le> c \<longrightarrow> noComment q \<longrightarrow> returns (remaining q) (ps q))"

text \<open>
  \<open>sub m m'\<close>: the call \<open>m'\<close> returns what the call \<open>m\<close> returns, if that one returns;
  \<open>esub\<close> and \<open>ssub\<close> say this of two functions taken for \<open>parseExpression\<close> and
  \<open>parseStatement\<close>.
\<close>

definition sub :: "'a option \<Rightarrow> 'a option \<Rightarrow> bool" where
  "sub m m' = (m = None \<or> m = m')"

definition esub ::
  "(int \<Rightarrow> Expression option parse) \<Rightarrow> (int \<Rightarrow> Expression option parse) \<Rightarrow> bool" where
  "esub pe pe' = (\<forall>prec p. sub (pe prec p) (pe' prec p))"

definition ssub :: "Statement parse \<Rightarrow> Statement parse \<Rightarrow> bool" where
  "ssub ps ps' = (\<forall>p. sub (ps p) (ps' p))"


section \<open>The lexer makes progress\<close>

lemma scanned_readChar: "lexer_ok l \<Longrightarrow> scanned (Suc 0) l (readChar l)"
  by (auto simp: scanned_def lexer_ok_def readChar_def Let_def)

lemma scanned_refl: "lexer_ok l \<Longrightarrow> scanned 0 l l"
  by (simp add: scanned_def)

lemma scanned_trans: "scanned j l l1 \<Longrightarrow> scanned k l1 l2 \<Longrightarrow> scanned (j + k) l l2"
  by (auto simp: scanned_def)

lemma scanned_weaken: "scanned j l l1 \<Longrightarrow> k \<le> j \<Longrightarrow> scanned k l l1"
  by (auto simp: scanned_def)

lemma scanned_step: "lexer_ok l \<Longrightarrow> scanned k (readChar l) l' \<Longrightarrow> scanned (Suc k) l l'"
  using scanned_trans[OF scanned_readChar, of l k l'] by simp

lemma scanned_ok: "scanned k l l' \<Longrightarrow> lexer_ok l'"
  by (simp add: scanned_def)

lemma scanned_skipWhitespace: "lexer_ok l \<Longrightarrow> scanned 0 l (skipWhitespace l)"
proof (induction l rule: skipWhitespace.induct)
  case (1 l)
  show ?case
  proof (cases "ch l = CHR '' '' \<or> ch l = TAB \<or> ch l = CR")
    case True
    have "scanned 0 (readChar l) (skipWhitespace (readChar l))"
      using 1 True scanned_ok[OF scanned_readChar] by blast
    then have "scanned (Suc 0) l (skipWhitespace (readChar l))"
      using scanned_step 1(2) by blast
    then show ?thesis using True by (subst skipWhitespace.simps) (auto intro: scanned_weaken)
  next
    case False
    then show ?thesis using 1(2) by (subst skipWhitespace.simps) (simp add: scanned_refl)
  qed
qed


lemma scanned_readIdentifier_loop: "lexer_ok l \<Longrightarrow> scanned 0 l (readIdentifier_loop l)"
proof (induction l rule: readIdentifier_loop.induct)
  case (1 l)
  show ?case
  proof (cases "isLetter (ch l) \<or> isDigit (ch l)")
    case True
    have "scanned 0 (readChar l) (readIdentifier_loop (readChar l))"
      using 1 True scanned_ok[OF scanned_readChar] by blast
    then have "scanned (Suc 0) l (readIdentifier_loop (readChar l))"
      using scanned_step 1(2) by blast
    then show ?thesis using True by (subst readIdentifier_loop.simps) (auto intro: scanned_weaken)
  next
    case False
    then show ?thesis using 1(2) by (subst readIdentifier_loop.simps) (simp add: scanned_refl)
  qed
qed

lemma scanned_readDigits: "lexer_ok l \<Longrightarrow> scanned 0 l (readDigits l)"
proof (induction l rule: readDigits.induct)
  case (1 l)
  show ?case
  proof (cases "isDigit (ch l)")
    case True
    have "scanned 0 (readChar l) (readDigits (readChar l))"
      using 1 True scanned_ok[OF scanned_readChar] by blast
    then have "scanned (Suc 0) l (readDigits (readChar l))"
      using scanned_step 1(2) by blast
    then show ?thesis using True by (subst readDigits.simps) (auto intro: scanned_weaken)
  next
    case False
    then show ?thesis using 1(2) by (subst readDigits.simps) (simp add: scanned_refl)
  qed
qed

lemma scanned_readComment_loop: "lexer_ok l \<Longrightarrow> scanned 0 l (readComment_loop l)"
proof (induction l rule: readComment_loop.induct)
  case (1 l)
  show ?case
  proof (cases "ch l \<noteq> LF \<and> ch l \<noteq> NUL")
    case True
    have "scanned 0 (readChar l) (readComment_loop (readChar l))"
      using 1 True scanned_ok[OF scanned_readChar] by blast
    then have "scanned (Suc 0) l (readComment_loop (readChar l))"
      using scanned_step 1(2) by blast
    then show ?thesis using True by (subst readComment_loop.simps) (auto intro: scanned_weaken)
  next
    case False
    then show ?thesis using 1(2) by (subst readComment_loop.simps) (auto simp: scanned_refl)
  qed
qed

lemma scanned_readString_loop: "lexer_ok l \<Longrightarrow> scanned (Suc 0) l (readString_loop d l)"
proof (induction d l rule: readString_loop.induct)
  case (1 d l)
  let ?l1 = "readChar l"
  have s1: "scanned (Suc 0) l ?l1" using 1(2) by (rule scanned_readChar)
  show ?case
  proof (cases "ch ?l1 = d \<or> ch ?l1 = NUL")
    case True
    then show ?thesis using s1 by (subst readString_loop.simps) (auto simp: Let_def)
  next
    case False
    define l2 where "l2 = (if ch ?l1 = BACKSLASH then readChar ?l1 else ?l1)"
    have s2: "scanned 0 ?l1 l2"
      unfolding l2_def
      using scanned_refl[OF scanned_ok[OF s1]] scanned_weaken[OF scanned_readChar[OF scanned_ok[OF s1]], of 0]
      by simp
    have s3: "scanned (Suc 0) l2 (readString_loop d l2)"
      unfolding l2_def using 1(1)[OF refl False] scanned_ok[OF s2] unfolding l2_def by blast
    have "scanned (Suc 0 + 0 + Suc 0) l (readString_loop d l2)"
      using scanned_trans[OF scanned_trans[OF s1 s2] s3] .
    then have "scanned (Suc 0) l (readString_loop d l2)" by (rule scanned_weaken) simp
    moreover have "readString_loop d l = readString_loop d l2"
      using False unfolding l2_def by (subst readString_loop.simps) (simp add: Let_def)
    ultimately show ?thesis by simp
  qed
qed

lemma scanned_oneChar: "lexer_ok l \<Longrightarrow> scanned (Suc 0) l (snd (oneChar t l))"
  by (simp add: oneChar_def scanned_readChar)

lemma scanned_twoChar: "lexer_ok l \<Longrightarrow> scanned (Suc 0) l (snd (twoChar t l))"
  using scanned_trans[OF scanned_readChar scanned_readChar[of "readChar l"]]
  by (auto simp: twoChar_def Let_def intro: scanned_weaken dest: scanned_ok[OF scanned_readChar])

lemma scanned_quoted: "lexer_ok l \<Longrightarrow> scanned (Suc 0) l (snd (quoted t d l))"
proof -
  assume ok: "lexer_ok l"
  have s: "scanned (Suc 0) l (readString_loop d l)" using ok by (rule scanned_readString_loop)
  have "scanned (Suc 0) l (readChar (readString_loop d l))"
    using scanned_trans[OF s scanned_readChar[OF scanned_ok[OF s]]] by (auto intro: scanned_weaken)
  then show ?thesis using s
    by (auto simp: quoted_def readString_def Let_def split: sum.splits)
qed


lemma scanned_readIdentifier:
  assumes "lexer_ok l" "isLetter (ch l)"
  shows "scanned (Suc 0) l (snd (readIdentifier l))"
proof -
  have "scanned 0 (readChar l) (readIdentifier_loop (readChar l))"
    using scanned_readIdentifier_loop scanned_ok[OF scanned_readChar[OF assms(1)]] by blast
  then have "scanned (Suc 0) l (readIdentifier_loop (readChar l))"
    using scanned_step assms(1) by blast
  moreover have "readIdentifier_loop l = readIdentifier_loop (readChar l)"
    using assms(2) by (subst readIdentifier_loop.simps) simp
  ultimately show ?thesis by (simp add: readIdentifier_def Let_def)
qed

lemma scanned_readComment:
  assumes "lexer_ok l" "ch l = CHR ''#''"
  shows "scanned (Suc 0) l (snd (readComment l))"
proof -
  have "scanned 0 (readChar l) (readComment_loop (readChar l))"
    using scanned_readComment_loop scanned_ok[OF scanned_readChar[OF assms(1)]] by blast
  then have "scanned (Suc 0) l (readComment_loop (readChar l))"
    using scanned_step assms(1) by blast
  moreover have "readComment_loop l = readComment_loop (readChar l)"
    using assms(2) by (subst readComment_loop.simps) simp
  ultimately show ?thesis by (simp add: readComment_def Let_def)
qed

lemma scanned_readDigits1:
  assumes "lexer_ok l" "isDigit (ch l)"
  shows "scanned (Suc 0) l (readDigits l)"
proof -
  have "scanned 0 (readChar l) (readDigits (readChar l))"
    using scanned_readDigits scanned_ok[OF scanned_readChar[OF assms(1)]] by blast
  then have "scanned (Suc 0) l (readDigits (readChar l))"
    using scanned_step assms(1) by blast
  moreover have "readDigits l = readDigits (readChar l)"
    using assms(2) by (subst readDigits.simps) simp
  ultimately show ?thesis by simp
qed

lemma snd_if: "snd (if c then a else b) = (if c then snd a else snd b)"
  by simp

lemma fst_if: "fst (if c then a else b) = (if c then fst a else fst b)"
  by simp

lemma snd_readNumber:
  "snd (readNumber l) =
     (let l1 = readDigits l;
          l2 = (if ch l1 = CHR ''.'' \<and> isDigit (peekChar l1) then readDigits (readChar l1)
                else l1);
          l4 = readChar l2;
          l5 = (if ch l4 = CHR ''+'' \<or> ch l4 = CHR ''-'' then readChar l4 else l4)
      in if ch l2 = CHR ''e'' \<or> ch l2 = CHR ''E'' then readDigits l5 else l2)"
  unfolding readNumber_def Let_def case_prod_beta snd_conv fst_conv snd_if fst_if
  by (rule refl)

lemma scanned_readNumber:
  assumes "lexer_ok l" "isDigit (ch l)"
  shows "scanned (Suc 0) l (snd (readNumber l))"
proof -
  let ?l1 = "readDigits l"
  have s1: "scanned (Suc 0) l ?l1" using assms by (rule scanned_readDigits1)
  let ?l2 = "if ch ?l1 = CHR ''.'' \<and> isDigit (peekChar ?l1) then readDigits (readChar ?l1) else ?l1"
  have "scanned 0 ?l1 (readDigits (readChar ?l1))"
    using scanned_trans[OF scanned_readChar[OF scanned_ok[OF s1]]
        scanned_readDigits[OF scanned_ok[OF scanned_readChar[OF scanned_ok[OF s1]]]]]
    by (auto intro: scanned_weaken)
  then have s2: "scanned 0 ?l1 ?l2" using scanned_refl[OF scanned_ok[OF s1]] by simp
  let ?l4 = "readChar ?l2"
  let ?l5 = "if ch ?l4 = CHR ''+'' \<or> ch ?l4 = CHR ''-'' then readChar ?l4 else ?l4"
  have s4: "scanned (Suc 0) ?l2 ?l4" using scanned_readChar[OF scanned_ok[OF s2]] .
  have s5: "scanned 0 ?l4 ?l5"
    using scanned_readChar[OF scanned_ok[OF s4]] scanned_refl[OF scanned_ok[OF s4]]
    by (auto intro: scanned_weaken)
  have s6: "scanned 0 ?l5 (readDigits ?l5)" using scanned_readDigits[OF scanned_ok[OF s5]] .
  let ?l3 = "if ch ?l2 = CHR ''e'' \<or> ch ?l2 = CHR ''E'' then readDigits ?l5 else ?l2"
  have "scanned 0 ?l2 (readDigits ?l5)"
    using scanned_trans[OF scanned_trans[OF s4 s5] s6] by (auto intro: scanned_weaken)
  then have s3: "scanned 0 ?l2 ?l3" using scanned_refl[OF scanned_ok[OF s2]] by simp
  have "scanned (Suc 0) l ?l3" using scanned_trans[OF scanned_trans[OF s1 s2] s3] by simp
  moreover have "snd (readNumber l) = ?l3"
    by (simp only: snd_readNumber Let_def)
  ultimately show ?thesis by simp
qed



lemma if_rule: "(c \<Longrightarrow> Q a) \<Longrightarrow> (\<not> c \<Longrightarrow> Q b) \<Longrightarrow> Q (if c then a else b)"
  by simp

lemma NextToken_cases:
  assumes one: "\<And>t. t \<noteq> EOF \<Longrightarrow> ch (skipWhitespace l0) \<noteq> NUL \<Longrightarrow> Q (oneChar t (skipWhitespace l0))"
    and two: "\<And>t. t \<noteq> EOF \<Longrightarrow> ch (skipWhitespace l0) \<noteq> NUL \<Longrightarrow> Q (twoChar t (skipWhitespace l0))"
    and quo: "\<And>t d. t \<noteq> EOF \<Longrightarrow> ch (skipWhitespace l0) \<noteq> NUL \<Longrightarrow> Q (quoted t d (skipWhitespace l0))"
    and com: "ch (skipWhitespace l0) = CHR ''#'' \<Longrightarrow> Q (commentToken (skipWhitespace l0))"
    and eof: "ch (skipWhitespace l0) = NUL \<Longrightarrow> Q (endOfFileToken (skipWhitespace l0))"
    and ide: "isLetter (ch (skipWhitespace l0)) \<Longrightarrow> Q (identifierToken (skipWhitespace l0))"
    and num: "isDigit (ch (skipWhitespace l0)) \<Longrightarrow> Q (numberToken (skipWhitespace l0))"
  shows "Q (NextToken l0)"
  unfolding NextToken_def Let_def
  apply (intro if_rule[where Q=Q])
  apply (erule one[rotated], simp; fail | erule two[rotated], simp; fail | rule one two quo, simp, simp; fail | erule com | erule eof | erule ide | erule num)+
  done

lemma snd_commentToken: "snd (commentToken l) = snd (readComment l)"
  by (simp add: commentToken_def split: prod.splits sum.splits)

lemma snd_identifierToken: "snd (identifierToken l) = snd (readIdentifier l)"
  by (simp add: identifierToken_def split: prod.splits sum.splits)

lemma snd_numberToken: "snd (numberToken l) = snd (readNumber l)"
  by (simp add: numberToken_def split: prod.splits sum.splits)

lemma scanned_NextToken:
  assumes "lexer_ok l"
  shows "scanned (Suc 0) l (snd (NextToken l))"
proof -
  let ?l = "skipWhitespace l"
  have s0: "scanned 0 l ?l" using assms by (rule scanned_skipWhitespace)
  have ok: "lexer_ok ?l" using s0 by (rule scanned_ok)
  have "scanned (Suc 0) ?l (snd (NextToken l))"
  proof (rule NextToken_cases)
    show "scanned (Suc 0) ?l (snd (endOfFileToken ?l))"
      using scanned_readChar[OF ok] by (simp add: endOfFileToken_def)
  qed (simp_all add: ok scanned_oneChar scanned_twoChar scanned_quoted snd_commentToken
        snd_identifierToken snd_numberToken scanned_readComment scanned_readIdentifier
        scanned_readNumber)
  then show ?thesis using scanned_trans[OF s0] by simp
qed

lemma LookupIdent_not_EOF: "LookupIdent s \<noteq> EOF"
  by (auto simp: LookupIdent_def Keywords_def split: option.splits if_splits)

lemma not_NUL_in_input: "lexer_ok l \<Longrightarrow> ch l \<noteq> NUL \<Longrightarrow> position l < length (input l)"
  by (auto simp: lexer_ok_def split: if_splits)

lemma isLetter_not_NUL: "isLetter c \<Longrightarrow> c \<noteq> NUL"
  by (auto simp: isLetter_def)

lemma isDigit_not_NUL: "isDigit c \<Longrightarrow> c \<noteq> NUL"
  by (auto simp: isDigit_def)

lemma notEOF_in_input:
  assumes "lexer_ok l" "notEOF (fst (NextToken l))"
  shows "position l < length (input l)"
proof -
  let ?l = "skipWhitespace l"
  have s0: "scanned 0 l ?l" using assms(1) by (rule scanned_skipWhitespace)
  have "notEOF (fst (NextToken l)) \<longrightarrow> ch ?l \<noteq> NUL"
  proof (rule NextToken_cases)
    show "notEOF (fst (endOfFileToken ?l)) \<longrightarrow> ch ?l \<noteq> NUL"
      by (simp add: endOfFileToken_def notEOF_def)
  qed (auto dest: isLetter_not_NUL isDigit_not_NUL)
  then have "position ?l < length (input ?l)"
    using assms(2) not_NUL_in_input[OF scanned_ok[OF s0]] by blast
  then show ?thesis using s0 by (simp add: scanned_def)
qed

lemma skipWhitespace_NUL: "ch l = NUL \<Longrightarrow> skipWhitespace l = l"
  by (subst skipWhitespace.simps) simp

lemma NextToken_at_end:
  assumes "lexer_ok l" "length (input l) \<le> position l"
  shows "NextToken l = endOfFileToken l"
proof -
  have c: "ch l = NUL" using assms by (simp add: lexer_ok_def)
  show ?thesis
    unfolding NextToken_def Let_def skipWhitespace_NUL[OF c]
    by (simp add: c isLetter_def isDigit_def)
qed

lemma lexer_ok_New: "lexer_ok (New inp) \<and> input (New inp) = inp \<and> position (New inp) = 0"
  by (simp add: New_def lexer_ok_def readChar_def Let_def)

lemma calls_Suc: "calls (Suc n) l = snd (NextToken (calls n l))"
  by (induction n arbitrary: l) simp_all

lemma calls_add: "calls (m + n) l = calls n (calls m l)"
  by (induction m arbitrary: l) simp_all

lemma scanned_calls: "lexer_ok l \<Longrightarrow> scanned n l (calls n l)"
proof (induction n)
  case 0
  then show ?case by (simp add: scanned_refl)
next
  case (Suc n)
  have s: "scanned n l (calls n l)" using Suc by simp
  show ?case
    unfolding calls_Suc
    using scanned_trans[OF s scanned_NextToken[OF scanned_ok[OF s]]] by simp
qed

lemma eof_at_end:
  assumes "lexer_ok l" "length (input l) \<le> position l"
  shows "isToken EOF (fst (NextToken (calls n l)))"
proof -
  have s: "scanned n l (calls n l)" using assms(1) by (rule scanned_calls)
  have "NextToken (calls n l) = endOfFileToken (calls n l)"
    using s assms(2) by (intro NextToken_at_end) (auto simp: scanned_def)
  then show ?thesis by (simp add: endOfFileToken_def isToken_def)
qed

lemma count_notEOF:
  "lexer_ok l \<Longrightarrow> length (filter notEOF (tokens n l)) \<le> length (input l) - position l"
proof (induction n arbitrary: l)
  case 0
  then show ?case by simp
next
  case (Suc n)
  let ?l' = "snd (NextToken l)"
  have s: "scanned (Suc 0) l ?l'" using Suc.prems by (rule scanned_NextToken)
  have IH: "length (filter notEOF (tokens n ?l')) \<le> length (input l) - position ?l'"
    using Suc.IH[OF scanned_ok[OF s]] s by (simp add: scanned_def)
  show ?case
  proof (cases "notEOF (fst (NextToken l))")
    case True
    then have "position l < length (input l)" using Suc.prems by (intro notEOF_in_input)
    then show ?thesis using IH s True by (simp add: scanned_def; arith)
  next
    case False
    then show ?thesis using IH s by (simp add: scanned_def; arith)
  qed
qed

section \<open>The parser returns\<close>

lemma returns_Some: "remaining p \<le> b \<Longrightarrow> noComment p \<Longrightarrow> returns b (Some (r, p))"
  by (simp add: returns_def)

lemma returns_Some_iff [simp]: "returns b (Some (r, p)) = (remaining p \<le> b \<and> noComment p)"
  by (simp add: returns_def)

lemma returns_None [simp]: "\<not> returns b None"
  by (simp add: returns_def)

lemma returns_mono: "returns b m \<Longrightarrow> b \<le> b' \<Longrightarrow> returns b' m"
  by (auto simp: returns_def split: option.splits)

lemma returns_bind:
  assumes "returns b1 m"
    and "\<And>r p. remaining p \<le> b1 \<Longrightarrow> noComment p \<Longrightarrow> returns b (f r p)"
  shows "returns b (Option.bind m (case_prod f))"
  using assms by (cases m) (auto simp: returns_def)

lemma returns_wrap: "returns b m \<Longrightarrow> returns b (wrap f m)"
  by (auto simp: returns_def wrap_def split: option.splits)

lemma skipComments_noComment: "fst (skipComments r rs) = Inr t \<Longrightarrow> Type t \<noteq> COMMENT"
proof (induction r rs rule: skipComments.induct)
  case (1 e rs)
  then show ?case by (simp add: skipComments.simps)
next
  case (2 t0 rs)
  show ?case
  proof (cases "Type t0 = COMMENT")
    case False
    then show ?thesis using 2(2) by (simp add: skipComments.simps)
  next
    case True
    show ?thesis
    proof (cases rs)
      case Nil
      then show ?thesis using True 2(2) by (auto simp: skipComments.simps eofToken_def)
    next
      case (Cons r' rs')
      then show ?thesis using True 2(1)[OF True Cons] 2(2) by (simp add: skipComments.simps)
    qed
  qed
qed

lemma curToken_nextToken [simp]: "curToken (nextToken p) = peekToken p"
  by (simp add: nextToken_def case_prod_beta Let_def split: sum.splits)

lemma errors_nextToken [simp]: "errors (nextToken p) = errors p"
  by (simp add: nextToken_def case_prod_beta Let_def split: sum.splits)

lemma peekToken_nextToken_noComment: "Type (peekToken (nextToken p)) \<noteq> COMMENT"
  using skipComments_noComment[of "fst (lexerNextToken (lx p))" "snd (lexerNextToken (lx p))"]
  by (simp add: nextToken_def case_prod_beta Let_def eofToken_def split: sum.splits)

lemma noComment_nextToken: "Type (peekToken p) \<noteq> COMMENT \<Longrightarrow> commentError \<notin> set (errors p)
   \<Longrightarrow> noComment (nextToken p)"
  using peekToken_nextToken_noComment[of p] by (simp add: noComment_def)

lemma noComment_nextToken' [simp]: "noComment p \<Longrightarrow> noComment (nextToken p)"
  using peekToken_nextToken_noComment[of p] by (simp add: noComment_def)

lemma noComment_peekError [simp]: "noComment p \<Longrightarrow> noComment (peekError t p)"
  by (simp add: noComment_def peekError_def commentError_def)

lemma TokenTypeString_COMMENT: "TokenTypeString t = ''COMMENT'' \<Longrightarrow> t = COMMENT"
proof -
  assume "TokenTypeString t = ''COMMENT''"
  then have "map_of TokenTypeNames t = Some ''COMMENT''"
    by (simp add: TokenTypeString_def split: option.splits)
  then have "(t, ''COMMENT'') \<in> set TokenTypeNames" by (rule map_of_SomeD)
  then show "t = COMMENT" by (simp add: TokenTypeNames_def)
qed

lemma noComment_noPrefixParseFnError [simp]:
  "noComment p \<Longrightarrow> noComment (noPrefixParseFnError (Type (curToken p)) p)"
  by (auto simp: noComment_def noPrefixParseFnError_def commentError_def
      dest: TokenTypeString_COMMENT[OF sym])

lemma next_dec: "remaining q \<le> b \<Longrightarrow> remaining (nextToken q) \<le> b - Suc 0"
  using remaining_nextToken[of q] by arith

lemma next_le: "remaining q \<le> b \<Longrightarrow> remaining (nextToken q) \<le> b"
  using remaining_nextToken[of q] by arith

lemma cur_pos: "remaining q \<le> b \<Longrightarrow> Type (curToken q) \<noteq> EOF \<Longrightarrow> 0 < b"
  by (simp add: remaining_def split: if_splits)

lemma peek_pos: "remaining q \<le> b \<Longrightarrow> Type (peekToken q) \<noteq> EOF \<Longrightarrow> 0 < b"
  by (simp add: remaining_def split: if_splits)

lemma returns_bind_same:
  assumes "returns b m"
    and "\<And>r p. remaining p \<le> b \<Longrightarrow> noComment p \<Longrightarrow> returns b (f r p)"
  shows "returns b (Option.bind m (case_prod f))"
  using assms by (rule returns_bind)

lemma returns_expectPeek:
  assumes "remaining p \<le> b" "noComment p"
    and "\<And>p1. remaining p1 \<le> b \<Longrightarrow> noComment p1 \<Longrightarrow> returns b (A p1)"
    and "\<And>p1. remaining p1 \<le> b \<Longrightarrow> noComment p1 \<Longrightarrow> Type (curToken p1) = t
           \<Longrightarrow> returns b (B p1)"
  shows "returns b (case expectPeek t p of (False, p1) \<Rightarrow> A p1 | (True, p1) \<Rightarrow> B p1)"
proof (cases "peekTokenIs t p")
  case True
  then have "expectPeek t p = (True, nextToken p)" by (simp add: expectPeek_def)
  moreover have "returns b (B (nextToken p))"
    using assms(1,2) True by (intro assms(4)) (simp_all add: next_le peekTokenIs_def)
  ultimately show ?thesis by simp
next
  case False
  then have "expectPeek t p = (False, peekError t p)" by (simp add: expectPeek_def)
  moreover have "returns b (A (peekError t p))"
    using assms(1,2) by (intro assms(3)) (simp_all add: remaining_peekError)
  ultimately show ?thesis by simp
qed

lemma parseTypeSpec_returns:
  "remaining p \<le> b \<Longrightarrow> b < n \<Longrightarrow> noComment p \<Longrightarrow> returns b (parseTypeSpec n p)"
proof (induction n arbitrary: p b)
  case 0
  then show ?case by simp
next
  case (Suc n)
  define q where "q = (if curTokenIs MULTIPLY p then nextToken p else p)"
  have q: "remaining q \<le> b" "noComment q"
    using Suc.prems by (simp_all add: q_def next_le)
  have IH: "returns b (parseTypeSpec n (nextToken q'))"
    if "remaining q' \<le> b" "0 < b" "noComment q'" for q'
  proof -
    have "returns (b - Suc 0) (parseTypeSpec n (nextToken q'))"
      using that Suc.prems(2) by (intro Suc.IH) (simp_all add: next_dec)
    then show ?thesis by (rule returns_mono) simp
  qed
  have pos: "0 < b" if "Type (curToken q) \<noteq> EOF"
    using q(1) that by (rule cur_pos)
  show ?case
    unfolding parseTypeSpec.simps Let_def q_def[symmetric]
    by (intro if_rule[where Q="returns b"] returns_bind_same returns_expectPeek IH)
       (use q pos in \<open>auto simp: next_le curTokenIs_def\<close>)
qed

lemma exprOK_mono: "exprOK c pe \<Longrightarrow> c' \<le> c \<Longrightarrow> exprOK c' pe"
  by (simp add: exprOK_def)

lemma exprOK_same:
  "exprOK c pe \<Longrightarrow> remaining q \<le> c \<Longrightarrow> c \<le> b \<Longrightarrow> noComment q \<Longrightarrow> returns b (pe prec q)"
  unfolding exprOK_def by (meson returns_mono order_trans)

lemma exprOK_next:
  assumes "exprOK (b - Suc 0) pe" "remaining q \<le> b" "noComment q"
  shows "returns (b - Suc 0) (pe prec (nextToken q))"
  using assms(1) by (rule exprOK_same) (simp_all add: assms next_dec)

lemma exprOK_next': 
  assumes "exprOK (b - Suc 0) pe" "remaining q \<le> b" "noComment q"
  shows "returns b (pe prec (nextToken q))"
  using exprOK_next[OF assms] by (rule returns_mono) simp

lemma parsePrefixExpression_returns:
  assumes "exprOK (b - Suc 0) pe" "remaining p \<le> b" "noComment p"
  shows "returns b (parsePrefixExpression pe p)"
  unfolding parsePrefixExpression_def Let_def
  by (intro returns_bind_same exprOK_next'[OF assms(1)] assms) simp_all

lemma parseInfixExpression_returns:
  assumes "exprOK (b - Suc 0) pe" "remaining p \<le> b" "noComment p"
  shows "returns b (parseInfixExpression pe left p)"
  unfolding parseInfixExpression_def Let_def
  by (intro returns_bind_same exprOK_next'[OF assms(1)] assms) simp_all

lemma parseGroupedExpression_returns:
  assumes "exprOK (b - Suc 0) pe" "remaining p \<le> b" "noComment p"
  shows "returns b (parseGroupedExpression pe p)"
  unfolding parseGroupedExpression_def
  by (intro returns_bind_same returns_expectPeek exprOK_next'[OF assms(1)] assms) simp_all

lemma parseIndexExpression_returns:
  assumes "exprOK (b - Suc 0) pe" "remaining p \<le> b" "noComment p"
  shows "returns b (parseIndexExpression pe left p)"
  unfolding parseIndexExpression_def
  by (intro returns_bind_same returns_expectPeek exprOK_next'[OF assms(1)] assms) simp_all

lemma parseSelectorExpression_returns:
  assumes "remaining p \<le> b" "noComment p"
  shows "returns b (Some (parseSelectorExpression left p))"
proof (cases "peekTokenIs IDENT p")
  case True
  then show ?thesis using assms
    by (simp add: parseSelectorExpression_def expectPeek_def next_le)
next
  case False
  then show ?thesis using assms
    by (simp add: parseSelectorExpression_def expectPeek_def remaining_peekError)
qed

lemma parseExpressionList_loop_returns:
  "exprOK (b - Suc 0) pe \<Longrightarrow> remaining p \<le> b \<Longrightarrow> b < k \<Longrightarrow> noComment p
     \<Longrightarrow> returns b (parseExpressionList_loop k pe end args p)"
proof (induction k arbitrary: b p args)
  case 0
  then show ?case by simp
next
  case (Suc k)
  show ?case
  proof (cases "peekTokenIs COMMA p")
    case False
    then show ?thesis using Suc.prems
      by (simp del: returns_Some_iff)
         (intro returns_expectPeek; simp)
  next
    case True
    then have pos: "0 < b" using Suc.prems(2) by (intro peek_pos[of p]) (simp_all add: peekTokenIs_def)
    have "returns (b - Suc 0) (pe LOWEST (nextToken (nextToken p)))"
      using Suc.prems by (intro exprOK_next) (simp_all add: next_le)
    moreover have "returns (b - Suc 0) (parseExpressionList_loop k pe end (args @ [e]) p3)"
      if "remaining p3 \<le> b - Suc 0" "noComment p3" for e p3
      using that Suc.prems pos by (intro Suc.IH) (auto intro: exprOK_mono)
    ultimately have "returns (b - Suc 0)
        (Option.bind (pe LOWEST (nextToken (nextToken p)))
           (\<lambda>(e, p3). parseExpressionList_loop k pe end (args @ [e]) p3))"
      by (intro returns_bind_same) simp_all
    then have "returns b
        (Option.bind (pe LOWEST (nextToken (nextToken p)))
           (\<lambda>(e, p3). parseExpressionList_loop k pe end (args @ [e]) p3))"
      by (rule returns_mono) simp
    then show ?thesis using True by simp
  qed
qed

lemma parseExpressionList_returns:
  assumes "exprOK (b - Suc 0) pe" "remaining p \<le> b" "b < n" "noComment p"
  shows "returns b (parseExpressionList n pe end p)"
  unfolding parseExpressionList_def
  by (intro if_rule[where Q="returns b"] returns_bind_same exprOK_next'[OF assms(1)]
        parseExpressionList_loop_returns assms)
     (use assms in \<open>simp_all add: next_le\<close>)

lemma parseArrayLiteral_returns:
  assumes "exprOK (b - Suc 0) pe" "remaining p \<le> b" "b < n" "noComment p"
  shows "returns b (parseArrayLiteral n pe p)"
  unfolding parseArrayLiteral_def
  by (intro returns_bind_same parseExpressionList_returns assms) simp_all

lemma parseCallExpression_returns:
  assumes "exprOK (b - Suc 0) pe" "remaining p \<le> b" "b < n" "noComment p"
  shows "returns b (parseCallExpression n pe fn p)"
  unfolding parseCallExpression_def
  by (intro returns_bind_same parseExpressionList_returns assms) simp_all

lemma parseMapLiteral_loop_returns:
  "exprOK b pe \<Longrightarrow> remaining p \<le> b \<Longrightarrow> b < k \<Longrightarrow> noComment p
     \<Longrightarrow> returns b (parseMapLiteral_loop k pe pairs p)"
proof (induction k arbitrary: b p pairs)
  case 0
  then show ?case by simp
next
  case (Suc k)
  have ok1: "exprOK (b - Suc 0) pe" using Suc.prems(1) by (rule exprOK_mono) simp
  have rec: "returns b (parseMapLiteral_loop k pe pairs' (nextToken (nextToken p4)))"
    if "remaining p4 \<le> b" "noComment p4" "peekTokenIs COMMA p4" for pairs' p4
  proof -
    have pos: "0 < b" using that by (intro peek_pos[of p4]) (simp_all add: peekTokenIs_def)
    have "returns (b - Suc 0) (parseMapLiteral_loop k pe pairs' (nextToken (nextToken p4)))"
      using that Suc.prems(3) pos ok1 by (intro Suc.IH) (simp_all add: next_le next_dec)
    then show ?thesis by (rule returns_mono) simp
  qed
  show ?case
    unfolding parseMapLiteral_loop.simps
    by (intro returns_bind_same returns_expectPeek if_rule[where Q="returns b"]
          exprOK_same[OF Suc.prems(1)] exprOK_next'[OF ok1] rec)
       (use Suc.prems in \<open>simp_all\<close>)
qed

lemma parseMapLiteral_returns:
  assumes "exprOK (b - Suc 0) pe" "remaining p \<le> b" "b < n" "noComment p"
  shows "returns b (parseMapLiteral n pe p)"
proof (cases "peekTokenIs RBRACE p")
  case True
  then show ?thesis using assms by (simp add: parseMapLiteral_def next_le)
next
  case False
  have "returns (b - Suc 0) (parseMapLiteral_loop n pe [] (nextToken p))"
    using assms by (intro parseMapLiteral_loop_returns) (simp_all add: next_dec)
  then have "returns b (parseMapLiteral_loop n pe [] (nextToken p))"
    by (rule returns_mono) simp
  then show ?thesis using False by (simp add: parseMapLiteral_def)
qed

lemma literal_returns:
  assumes "remaining p \<le> b" "noComment p"
  shows "returns b (Some (parseIdentifier p))"
    and "returns b (Some (parseIntegerLiteral p))"
    and "returns b (Some (parseFloatLiteral p))"
    and "returns b (Some (parseStringLiteral p))"
    and "returns b (Some (parseBooleanLiteral p))"
    and "returns b (Some (parseNilLiteral p))"
  using assms
  by (auto simp: parseIdentifier_def parseIntegerLiteral_def parseFloatLiteral_def
        parseStringLiteral_def parseBooleanLiteral_def parseNilLiteral_def
        remaining_def noComment_def commentError_def quote_def split: option.splits)

lemma callPrefix_returns:
  assumes "exprOK (b - Suc 0) pe" "remaining p \<le> b" "b < n" "noComment p"
  shows "returns b (callPrefix n pe fn p)"
  unfolding callPrefix_def
  by (cases fn)
     (simp_all only: prefixParseFn.case literal_returns[OF assms(2,4)]
        parsePrefixExpression_returns[OF assms(1,2,4)]
        parseGroupedExpression_returns[OF assms(1,2,4)]
        parseArrayLiteral_returns[OF assms] parseMapLiteral_returns[OF assms])

lemma callInfix_returns:
  assumes "exprOK (b - Suc 0) pe" "remaining p \<le> b" "b < n" "noComment p"
  shows "returns b (callInfix n pe fn left p)"
  unfolding callInfix_def
  by (cases fn)
     (simp_all only: infixParseFn.case
        parseInfixExpression_returns[OF assms(1,2,4)]
        parseIndexExpression_returns[OF assms(1,2,4)]
        parseCallExpression_returns[OF assms] parseSelectorExpression_returns[OF assms(2,4)])

lemma parseExpression_loop_returns:
  "exprOK (b - Suc 0) pe \<Longrightarrow> remaining p \<le> b \<Longrightarrow> b < k \<Longrightarrow> b < n \<Longrightarrow> noComment p
     \<Longrightarrow> returns b (parseExpression_loop k n pe precedence leftExp p)"
proof (induction k arbitrary: b p leftExp)
  case 0
  then show ?case by simp
next
  case (Suc k)
  have step: "returns b (Option.bind (callInfix n pe fn leftExp (nextToken p))
                (\<lambda>(leftExp', p1). parseExpression_loop k n pe precedence leftExp' p1))"
    if "\<not> peekTokenIs EOF p" for fn
  proof -
    have pos: "0 < b" using Suc.prems(2) that by (intro peek_pos[of p]) (simp_all add: peekTokenIs_def)
    have ok: "exprOK (b - Suc 0 - Suc 0) pe" using Suc.prems(1) by (rule exprOK_mono) simp
    have "returns (b - Suc 0) (callInfix n pe fn leftExp (nextToken p))"
      using Suc.prems pos by (intro callInfix_returns ok) (simp_all add: next_dec)
    moreover have "returns (b - Suc 0) (parseExpression_loop k n pe precedence l p1)"
      if "remaining p1 \<le> b - Suc 0" "noComment p1" for l p1
      using that Suc.prems pos by (intro Suc.IH ok) simp_all
    ultimately have "returns (b - Suc 0) (Option.bind (callInfix n pe fn leftExp (nextToken p))
                (\<lambda>(leftExp', p1). parseExpression_loop k n pe precedence leftExp' p1))"
      by (intro returns_bind_same) simp_all
    then show ?thesis by (rule returns_mono) simp
  qed
  show ?case
    unfolding parseExpression_loop.simps
    by (intro if_rule[where Q="returns b"])
       (use Suc.prems step in \<open>auto split: option.splits\<close>)
qed

lemma prefix_not_EOF: "map_of prefixParseFns EOF = None"
  by (simp add: prefixParseFns_def)

lemma parseExpression_returns:
  "remaining p \<le> b \<Longrightarrow> b < n \<Longrightarrow> noComment p \<Longrightarrow> returns b (parseExpression n precedence p)"
proof (induction n arbitrary: p b precedence)
  case 0
  then show ?case by simp
next
  case (Suc n)
  show ?case
  proof (cases "map_of prefixParseFns (Type (curToken p))")
    case None
    have "remaining (noPrefixParseFnError (Type (curToken p)) p) = remaining p"
      by (simp add: noPrefixParseFnError_def remaining_def)
    then show ?thesis using None Suc.prems by simp
  next
    case (Some fn)
    then have "Type (curToken p) \<noteq> EOF" using prefix_not_EOF by auto
    then have pos: "0 < b" using Suc.prems(1) by (intro cur_pos[of p])
    have ok: "exprOK (b - Suc 0) (parseExpression n)"
      unfolding exprOK_def
    proof (intro allI impI)
      fix prec q assume "remaining q \<le> b - Suc 0" "noComment q"
      then show "returns (remaining q) (parseExpression n prec q)"
        using Suc.prems(2) pos by (intro Suc.IH) simp_all
    qed
    have "returns b (Option.bind (callPrefix (Suc n) (parseExpression n) fn p)
            (\<lambda>(leftExp, p1). parseExpression_loop (Suc n) (Suc n) (parseExpression n) precedence leftExp p1))"
      using Suc.prems
      by (intro returns_bind_same callPrefix_returns parseExpression_loop_returns ok) simp_all
    then show ?thesis unfolding parseExpression.simps Some option.case .
  qed
qed

lemma exprOK_parseExpression: "c < n \<Longrightarrow> exprOK c (parseExpression n)"
  unfolding exprOK_def by (intro allI impI parseExpression_returns) simp_all

lemma stmtOK_mono: "stmtOK c ps \<Longrightarrow> c' \<le> c \<Longrightarrow> stmtOK c' ps"
  by (simp add: stmtOK_def)

lemma stmtOK_same:
  "stmtOK c ps \<Longrightarrow> remaining q \<le> c \<Longrightarrow> c \<le> b \<Longrightarrow> noComment q \<Longrightarrow> returns b (ps q)"
  unfolding stmtOK_def by (meson returns_mono order_trans)

lemma returns_expectPeek_dec:
  assumes "remaining p \<le> b" "noComment p"
    and "\<And>p1. remaining p1 \<le> b \<Longrightarrow> noComment p1 \<Longrightarrow> returns b (A p1)"
    and "\<And>p1. remaining p1 \<le> b - Suc 0 \<Longrightarrow> noComment p1 \<Longrightarrow> Type (curToken p1) = t
           \<Longrightarrow> returns (b - Suc 0) (B p1)"
  shows "returns b (case expectPeek t p of (False, p1) \<Rightarrow> A p1 | (True, p1) \<Rightarrow> B p1)"
proof (cases "peekTokenIs t p")
  case True
  then have "expectPeek t p = (True, nextToken p)" by (simp add: expectPeek_def)
  moreover have "returns (b - Suc 0) (B (nextToken p))"
    using assms(1,2) True by (intro assms(4)) (simp_all add: next_dec peekTokenIs_def)
  then have "returns b (B (nextToken p))" by (rule returns_mono) simp
  ultimately show ?thesis by simp
next
  case False
  then have "expectPeek t p = (False, peekError t p)" by (simp add: expectPeek_def)
  moreover have "returns b (A (peekError t p))"
    using assms(1,2) by (intro assms(3)) (simp_all add: remaining_peekError)
  ultimately show ?thesis by simp
qed

lemma remaining_skipNewlines_peek: "remaining (skipNewlines_peek p) \<le> remaining p"
proof (induction p rule: skipNewlines_peek.induct)
  case (1 p)
  show ?case
  proof (cases "peekTokenIs NEWLINE p")
    case True
    then show ?thesis
      using 1[OF True] remaining_nextToken_le[of p] by (subst skipNewlines_peek.simps) simp
  next
    case False
    then show ?thesis by (subst skipNewlines_peek.simps) simp
  qed
qed

lemma noComment_skipNewlines_peek: "noComment p \<Longrightarrow> noComment (skipNewlines_peek p)"
proof (induction p rule: skipNewlines_peek.induct)
  case (1 p)
  show ?case
  proof (cases "peekTokenIs NEWLINE p")
    case True
    then show ?thesis
      using 1 by (subst skipNewlines_peek.simps) simp
  next
    case False
    then show ?thesis using 1 by (subst skipNewlines_peek.simps) simp
  qed
qed

lemma noComment_skipNewlines_cur: "noComment p \<Longrightarrow> noComment (skipNewlines_cur p)"
proof (induction p rule: skipNewlines_cur.induct)
  case (1 p)
  show ?case
  proof (cases "curTokenIs NEWLINE p")
    case True
    then show ?thesis
      using 1 by (subst skipNewlines_cur.simps) simp
  next
    case False
    then show ?thesis using 1 by (subst skipNewlines_cur.simps) simp
  qed
qed

lemma skip_peek_le: "remaining p \<le> b \<Longrightarrow> remaining (skipNewlines_peek p) \<le> b"
  using remaining_skipNewlines_peek[of p] by simp

lemma parseParameter_returns:
  assumes "remaining p \<le> b" "b < n" "noComment p"
  shows "returns b (parseParameter n p)"
  unfolding parseParameter_def Let_def
  by (intro if_rule[where Q="returns b"] returns_bind_same parseTypeSpec_returns)
     (use assms in \<open>simp_all add: next_le\<close>)

lemma parseFunctionParameters_loop_returns:
  "remaining p \<le> b \<Longrightarrow> b < k \<Longrightarrow> b < n \<Longrightarrow> noComment p
     \<Longrightarrow> returns b (parseFunctionParameters_loop k n params p)"
proof (induction k arbitrary: b p params)
  case 0
  then show ?case by simp
next
  case (Suc k)
  show ?case
  proof (cases "peekTokenIs COMMA p")
    case False
    then show ?thesis using Suc.prems by simp
  next
    case True
    then have pos: "0 < b" using Suc.prems(1) by (intro peek_pos[of p]) (simp_all add: peekTokenIs_def)
    have "returns (b - Suc 0) (Option.bind (parseParameter n (nextToken (nextToken p)))
            (\<lambda>(param, p2). parseFunctionParameters_loop k n (params @ [param]) p2))"
      by (intro returns_bind_same parseParameter_returns Suc.IH)
         (use Suc.prems pos in \<open>simp_all add: next_le next_dec\<close>)
    then have "returns b (Option.bind (parseParameter n (nextToken (nextToken p)))
            (\<lambda>(param, p2). parseFunctionParameters_loop k n (params @ [param]) p2))"
      by (rule returns_mono) simp
    then show ?thesis using True by simp
  qed
qed

lemma parseFunctionParameters_returns:
  assumes "remaining p \<le> b" "b < n" "noComment p"
  shows "returns b (parseFunctionParameters n p)"
  unfolding parseFunctionParameters_def
  by (intro if_rule[where Q="returns b"] returns_bind_same parseParameter_returns
        parseFunctionParameters_loop_returns)
     (use assms in \<open>simp_all add: next_le\<close>)

lemma parseVarDeclaration_returns:
  assumes "remaining p \<le> b" "b < n" "noComment p"
  shows "returns b (parseVarDeclaration n p)"
  unfolding parseVarDeclaration_def Let_def
  by (intro if_rule[where Q="returns b"] returns_bind_same returns_expectPeek
        parseTypeSpec_returns parseExpression_returns)
     (use assms in \<open>simp_all add: next_le\<close>)

lemma parseReturnStatement_returns:
  assumes "remaining p \<le> b" "b < n" "noComment p"
  shows "returns b (parseReturnStatement n p)"
  unfolding parseReturnStatement_def
  by (intro if_rule[where Q="returns b"] parseExpression_returns)
     (use assms in \<open>simp_all add: next_le\<close>)

lemma parseExpressionStatement_returns:
  assumes "remaining p \<le> b" "b < n" "noComment p"
  shows "returns b (parseExpressionStatement n p)"
  unfolding parseExpressionStatement_def
  by (intro parseExpression_returns assms)

lemma parseBlockStatement_loop_returns:
  "stmtOK b ps \<Longrightarrow> remaining p \<le> b \<Longrightarrow> b < k \<Longrightarrow> noComment p
     \<Longrightarrow> returns b (parseBlockStatement_loop k ps stmts p)"
proof (induction k arbitrary: b p stmts)
  case 0
  then show ?case by simp
next
  case (Suc k)
  show ?case
  proof (cases "curTokenIs EOF p")
    case True
    then show ?thesis using Suc.prems by simp
  next
    case False
    then have pos: "0 < b" using Suc.prems(2) by (intro cur_pos[of p]) (simp_all add: curTokenIs_def)
    have ok: "stmtOK (b - Suc 0) ps" using Suc.prems(1) by (rule stmtOK_mono) simp
    have next_ok: "returns b (parseBlockStatement_loop k ps ss (nextToken q))"
      if "remaining q \<le> b" "noComment q" for ss q
    proof -
      have "returns (b - Suc 0) (parseBlockStatement_loop k ps ss (nextToken q))"
        using that Suc.prems(3) pos by (intro Suc.IH ok) (simp_all add: next_dec)
      then show ?thesis by (rule returns_mono) simp
    qed
    have eof_ok: "returns b (parseBlockStatement_loop k ps ss q)"
      if "remaining q \<le> b" "noComment q" "curTokenIs EOF q" for ss q
    proof -
      obtain k' where "k = Suc k'" using Suc.prems(3) pos by (cases k) simp_all
      then show ?thesis using that by simp
    qed
    show ?thesis
      unfolding parseBlockStatement_loop.simps
      by (intro if_rule[where Q="returns b"] returns_bind_same next_ok
            stmtOK_same[OF Suc.prems(1)])
         (use Suc.prems False eof_ok next_ok in \<open>simp_all\<close>)
  qed
qed

lemma parseBlockStatement_returns:
  assumes "stmtOK b ps" "remaining p \<le> b" "b < n" "noComment p"
  shows "returns b (parseBlockStatement n ps p)"
  unfolding parseBlockStatement_def by (intro parseBlockStatement_loop_returns assms)

lemma parseFunctionDeclaration_returns:
  assumes "stmtOK (b - Suc 0) ps" "remaining p \<le> b" "b < n" "noComment p"
  shows "returns b (parseFunctionDeclaration n ps p)"
proof -
  define c where "c = b - Suc 0"
  have c: "c < n" "stmtOK c ps" using assms by (simp_all add: c_def)
  show ?thesis
    unfolding parseFunctionDeclaration_def Let_def
  proof (rule returns_expectPeek_dec[OF assms(2,4)], unfold c_def[symmetric])
    fix p1 assume "remaining p1 \<le> c" "noComment p1"
    then show "returns c (case expectPeek LPAREN p1 of
        (False, p2) \<Rightarrow> Some (None, p2)
      | (True, p2) \<Rightarrow>
          Option.bind (parseFunctionParameters n p2)
            (\<lambda>(params, p3). case expectPeek RPAREN p3 of
                 (False, p4) \<Rightarrow> Some (None, p4)
               | (True, p4) \<Rightarrow>
                   Option.bind (if peekTokenIs IDENT p4 \<or> peekTokenIs LPAREN p4
                                then parseTypeSpec n (nextToken p4) else Some (None, p4))
                     (\<lambda>(returnType, p5). case expectPeek COLON p5 of
                          (False, p6) \<Rightarrow> Some (None, p6)
                        | (True, p6) \<Rightarrow>
                            Option.bind (parseBlockStatement n ps (skipNewlines_peek p6))
                              (\<lambda>(body, p8). Some (Some (FunctionDecl (Literal (curToken p1)) params returnType body None), p8)))))"
      by (intro if_rule[where Q="returns c"] returns_bind_same returns_expectPeek
            parseFunctionParameters_returns parseTypeSpec_returns parseBlockStatement_returns c)
         (simp_all add: next_le skip_peek_le noComment_skipNewlines_peek)
  qed simp
qed

lemma parseStructDeclaration_loop_returns:
  "stmtOK b ps \<Longrightarrow> remaining p \<le> b \<Longrightarrow> b < k \<Longrightarrow> b < n \<Longrightarrow> noComment p
     \<Longrightarrow> returns b (parseStructDeclaration_loop k n ps name flds methods p)"
proof (induction k arbitrary: b p flds methods)
  case 0
  then show ?case by simp
next
  case (Suc k)
  show ?case
  proof (cases "\<not> curTokenIs EOF p \<and> curTokenIs IDENT p \<or> curTokenIs FUNC p")
    case False
    then have "parseStructDeclaration_loop (Suc k) n ps name flds methods p
        = Some (Some (StructDecl name flds methods), p)"
      unfolding parseStructDeclaration_loop.simps by (rule if_not_P)
    then show ?thesis using Suc.prems by simp
  next
    case True
    then have "Type (curToken p) \<noteq> EOF" by (auto simp: curTokenIs_def)
    then have pos: "0 < b" using Suc.prems(2) by (intro cur_pos[of p])
    have ok: "stmtOK (b - Suc 0) ps" using Suc.prems(1) by (rule stmtOK_mono) simp
    have next_ok: "returns b (parseStructDeclaration_loop k n ps name fs ms (nextToken q))"
      if "remaining q \<le> b" "noComment q" for fs ms q
    proof -
      have "returns (b - Suc 0) (parseStructDeclaration_loop k n ps name fs ms (nextToken q))"
        using that Suc.prems(3,4) pos by (intro Suc.IH ok) (simp_all add: next_dec)
      then show ?thesis by (rule returns_mono) simp
    qed
    show ?thesis
      unfolding parseStructDeclaration_loop.simps Let_def
      by (intro if_rule[where Q="returns b"] returns_bind_same next_ok
            parseFunctionDeclaration_returns parseTypeSpec_returns ok)
         (use Suc.prems in \<open>simp_all add: next_le\<close>)
  qed
qed

lemma parseStructDeclaration_returns:
  assumes "stmtOK (b - Suc 0) ps" "remaining p \<le> b" "b < n" "noComment p"
  shows "returns b (parseStructDeclaration n ps p)"
proof -
  define c where "c = b - Suc 0"
  have c: "c < n" "stmtOK c ps" using assms by (simp_all add: c_def)
  show ?thesis
    unfolding parseStructDeclaration_def Let_def
  proof (rule returns_expectPeek_dec[OF assms(2,4)], goal_cases)
    case (1 p1)
    then show ?case by simp
  next
    case (2 p1)
    then show ?case
      unfolding c_def[symmetric]
      by (intro returns_expectPeek parseStructDeclaration_loop_returns c)
         (simp_all add: skip_peek_le noComment_skipNewlines_peek)
  qed
qed

lemma parseIfStatement_returns:
  "stmtOK (b - Suc 0) ps \<Longrightarrow> remaining p \<le> b \<Longrightarrow> b < k \<Longrightarrow> b < n \<Longrightarrow> noComment p
     \<Longrightarrow> returns b (parseIfStatement k n ps p)"
proof (induction k arbitrary: b p)
  case 0
  then show ?case by simp
next
  case (Suc k)
  define c where "c = b - Suc 0"
  have c: "c < n" "stmtOK c ps" using Suc.prems by (simp_all add: c_def)
  have start: "remaining (nextToken p) \<le> c" "noComment (nextToken p)"
    using Suc.prems by (simp_all add: c_def next_dec)
  have rec: "returns c (parseIfStatement k n ps (nextToken p4))"
    if "remaining p4 \<le> c" "noComment p4" "peekTokenIs ELIF p4 \<or> peekTokenIs ELSE p4" for p4
  proof -
    have "Type (peekToken p4) \<noteq> EOF" using that(3) by (auto simp: peekTokenIs_def)
    then have "0 < c" using that(1) by (intro peek_pos[of p4])
    then have "c < k" using Suc.prems(3) by (simp add: c_def)
    moreover have "stmtOK (c - Suc 0) ps" using c(2) by (rule stmtOK_mono) simp
    ultimately show ?thesis using that c(1) by (intro Suc.IH) (simp_all add: next_le)
  qed
  have "returns c (parseIfStatement (Suc k) n ps p)"
    unfolding parseIfStatement.simps Let_def
    by (intro if_rule[where Q="returns c"] returns_bind_same returns_expectPeek rec
          parseExpression_returns parseBlockStatement_returns c start)
       (simp_all add: next_le skip_peek_le noComment_skipNewlines_peek)
  then show ?case by (rule returns_mono) (simp add: c_def)
qed

lemma parseForHead_returns:
  assumes "stmtOK b ps" "remaining p \<le> b" "b < n" "noComment p"
  shows "returns b (parseForHead n ps p)"
  unfolding parseForHead_def Let_def
  by (intro if_rule[where Q="returns b"] returns_bind_same returns_expectPeek
        parseExpression_returns stmtOK_same[OF assms(1)])
     (use assms in \<open>simp_all add: next_le\<close>)

lemma option_rule:
  "(r = None \<Longrightarrow> Q a) \<Longrightarrow> (\<And>x. r = Some x \<Longrightarrow> Q (f x))
     \<Longrightarrow> Q (case r of None \<Rightarrow> a | Some x \<Rightarrow> f x)"
  by (cases r) simp_all

lemma prod_rule: "(\<And>x y. Q (f x y)) \<Longrightarrow> Q (case r of (x, y) \<Rightarrow> f x y)"
  by (cases r) simp

lemma parseForStatement_returns:
  assumes "stmtOK (b - Suc 0) ps" "remaining p \<le> b" "b < n" "noComment p"
  shows "returns b (parseForStatement n ps p)"
proof -
  define c where "c = b - Suc 0"
  have c: "c < n" "stmtOK c ps" using assms by (simp_all add: c_def)
  have start: "remaining (nextToken p) \<le> c" "noComment (nextToken p)"
    using assms by (simp_all add: c_def next_dec)
  have "returns c (parseForStatement n ps p)"
    unfolding parseForStatement_def
    by (intro returns_bind_same option_rule[where Q="returns c"] prod_rule[where Q="returns c"]
          returns_expectPeek parseForHead_returns parseBlockStatement_returns c start)
       (simp_all add: skip_peek_le noComment_skipNewlines_peek)
  then show ?thesis by (rule returns_mono) (simp add: c_def)
qed

lemma parseWhileStatement_returns:
  assumes "stmtOK (b - Suc 0) ps" "remaining p \<le> b" "b < n" "noComment p"
  shows "returns b (parseWhileStatement n ps p)"
proof -
  define c where "c = b - Suc 0"
  have c: "c < n" "stmtOK c ps" using assms by (simp_all add: c_def)
  have start: "remaining (nextToken p) \<le> c" "noComment (nextToken p)"
    using assms by (simp_all add: c_def next_dec)
  have "returns c (parseWhileStatement n ps p)"
    unfolding parseWhileStatement_def
    by (intro returns_bind_same returns_expectPeek parseExpression_returns
          parseBlockStatement_returns c start)
       (simp_all add: skip_peek_le noComment_skipNewlines_peek)
  then show ?thesis by (rule returns_mono) (simp add: c_def)
qed

lemma parseStatement_returns:
  "remaining p \<le> b \<Longrightarrow> b < n \<Longrightarrow> noComment p \<Longrightarrow> returns b (parseStatement n p)"
proof (induction n arbitrary: p b)
  case 0
  then show ?case by simp
next
  case (Suc n)
  show ?case
  proof (cases "Type (curToken p) = EOF")
    case True
    then show ?thesis
      using Suc.prems
      by (simp add: peekTokenIs_def returns_wrap parseExpressionStatement_returns)
  next
    case False
    then have pos: "0 < b" using Suc.prems(1) by (intro cur_pos[of p])
    have ok: "stmtOK (b - Suc 0) (parseStatement n)"
      unfolding stmtOK_def
    proof (intro allI impI)
      fix q assume "remaining q \<le> b - Suc 0" "noComment q"
      then show "returns (remaining q) (parseStatement n q)"
        using Suc.prems(2) pos by (intro Suc.IH) simp_all
    qed
    show ?thesis
      unfolding parseStatement.simps Let_def
      by (intro if_rule[where Q="returns b"] returns_wrap
            parseFunctionDeclaration_returns parseStructDeclaration_returns
            parseVarDeclaration_returns parseIfStatement_returns parseForStatement_returns
            parseWhileStatement_returns parseReturnStatement_returns
            parseExpressionStatement_returns ok Suc.prems)
  qed
qed

lemma noComment_parseImportItems: "noComment p \<Longrightarrow> noComment (snd (parseImportItems items p))"
proof (induction items p rule: parseImportItems.induct)
  case (1 items p)
  show ?case
  proof (cases "peekTokenIs COMMA p")
    case False
    then show ?thesis using 1(2) by (subst parseImportItems.simps) (simp add: Let_def)
  next
    case True
    then show ?thesis
      using 1(1)[OF refl] 1(2) by (subst parseImportItems.simps) (simp add: Let_def)
  qed
qed

lemma noComment_parseImportList: "noComment p \<Longrightarrow> noComment (snd (parseImportList items p))"
proof (induction items p rule: parseImportList.induct)
  case (1 items p)
  show ?case
  proof (cases "\<not> curTokenIs RPAREN p \<and> \<not> curTokenIs EOF p")
    case False
    then show ?thesis using 1(2) by (subst parseImportList.simps) auto
  next
    case True
    define items' where "items' =
      (if curTokenIs STRING p
       then items @ [[DQUOTE] @ GetRealPackagePath (Trim (Literal (curToken p)) DQUOTE) @ [DQUOTE]]
       else items)"
    define p1 where "p1 = nextToken p"
    define p2 where "p2 = (if curTokenIs COMMA p1 then nextToken p1 else p1)"
    have "noComment p2" using 1(2) by (simp add: p2_def p1_def)
    then have "noComment (snd (parseImportList items' p2))"
      unfolding p2_def using 1(1)[OF True items'_def p1_def] by simp
    moreover have "parseImportList items p = parseImportList items' p2"
      using True unfolding p2_def p1_def items'_def
      by (subst parseImportList.simps) (simp add: Let_def)
    ultimately show ?thesis by simp
  qed
qed

lemma noComment_expectPeek: "noComment p \<Longrightarrow> noComment (snd (expectPeek t p))"
  by (simp add: expectPeek_def)

lemma noComment_parseImportDeclaration:
  assumes "noComment p"
  shows "noComment (snd (parseImportDeclaration p))"
proof -
  have a: "noComment (snd (expectPeek IMPORT (nextToken (nextToken p))))"
    using assms by (intro noComment_expectPeek) simp
  have b: "noComment (snd (parseImportItems []
             (nextToken (snd (expectPeek IMPORT (nextToken (nextToken p)))))))"
    using a by (intro noComment_parseImportItems) simp
  have c: "noComment (snd (parseImportList [] (nextToken (nextToken p))))"
    using assms by (intro noComment_parseImportList) simp
  show ?thesis
    using assms a b c
    by (simp add: parseImportDeclaration_def Let_def case_prod_beta
        split: bool.splits prod.splits)
qed

lemma remaining_parseImports: "remaining (snd (parseImports imps p)) \<le> remaining p"
proof (induction imps p rule: parseImports.induct)
  case (1 imps p)
  show ?case
  proof (cases "curTokenIs IMPORT p \<or> curTokenIs FROM p")
    case False
    then show ?thesis by (subst parseImports.simps) simp
  next
    case True
    obtain d p1 where d: "parseImportDeclaration p = (d, p1)" by (cases "parseImportDeclaration p")
    have "remaining (skipNewlines_cur p1) < remaining p"
      using True d by (rule parseImports_term)
    moreover have "remaining (snd (parseImports (case d of None \<Rightarrow> imps | Some x \<Rightarrow> imps @ [x])
             (skipNewlines_cur p1))) \<le> remaining (skipNewlines_cur p1)"
      using 1[OF True d[symmetric]] .
    ultimately show ?thesis
      using True d by (subst parseImports.simps) simp
  qed
qed

lemma noComment_parseImports: "noComment p \<Longrightarrow> noComment (snd (parseImports imps p))"
proof (induction imps p rule: parseImports.induct)
  case (1 imps p)
  show ?case
  proof (cases "curTokenIs IMPORT p \<or> curTokenIs FROM p")
    case False
    then show ?thesis using 1(2) by (subst parseImports.simps) simp
  next
    case True
    obtain d p1 where d: "parseImportDeclaration p = (d, p1)" by (cases "parseImportDeclaration p")
    have "noComment p1" using noComment_parseImportDeclaration[OF 1(2)] d by simp
    then have "noComment (skipNewlines_cur p1)" by (rule noComment_skipNewlines_cur)
    then have "noComment (snd (parseImports (case d of None \<Rightarrow> imps | Some x \<Rightarrow> imps @ [x])
             (skipNewlines_cur p1)))"
      using 1(1)[OF True d[symmetric]] by simp
    then show ?thesis
      using True d by (subst parseImports.simps) simp
  qed
qed

lemma ParseProgram_loop_returns:
  "remaining p \<le> b \<Longrightarrow> b < k \<Longrightarrow> b < n \<Longrightarrow> noComment p
     \<Longrightarrow> returns b (ParseProgram_loop k n stmts p)"
proof (induction k arbitrary: b p stmts)
  case 0
  then show ?case by simp
next
  case (Suc k)
  show ?case
  proof (cases "curTokenIs EOF p")
    case True
    then show ?thesis using Suc.prems by simp
  next
    case False
    then have pos: "0 < b" using Suc.prems(1) by (intro cur_pos[of p]) (simp_all add: curTokenIs_def)
    have next_ok: "returns b (ParseProgram_loop k n ss (nextToken q))"
      if "remaining q \<le> b" "noComment q" for ss q
    proof -
      have "returns (b - Suc 0) (ParseProgram_loop k n ss (nextToken q))"
        using that Suc.prems(2,3) pos by (intro Suc.IH) (simp_all add: next_dec)
      then show ?thesis by (rule returns_mono) simp
    qed
    have eof_ok: "returns b (ParseProgram_loop k n ss q)"
      if "remaining q \<le> b" "noComment q" "curTokenIs EOF q" for ss q
    proof -
      obtain k' where "k = Suc k'" using Suc.prems(2) pos by (cases k) simp_all
      then show ?thesis using that by simp
    qed
    show ?thesis
      unfolding ParseProgram_loop.simps
      by (intro if_rule[where Q="returns b"] returns_bind_same next_ok parseStatement_returns)
         (use Suc.prems False eof_ok next_ok in \<open>simp_all\<close>)
  qed
qed

lemma ParseProgram_returns:
  assumes "remaining p \<le> b" "b < n" "noComment p"
  shows "returns b (ParseProgram n p)"
proof -
  define pk where "pk =
     (if curTokenIs PACKAGE p
      then (let q = nextToken p in
            if curTokenIs IDENT q then (Literal (curToken q), nextToken q) else ([], q))
      else (''main'', p))"
  define p3 where "p3 = snd (parseImports [] (skipNewlines_cur (snd pk)))"
  have "remaining (snd pk) \<le> b" "noComment (snd pk)"
    using assms by (simp_all add: pk_def Let_def next_le)
  then have "remaining (skipNewlines_cur (snd pk)) \<le> b" "noComment (skipNewlines_cur (snd pk))"
    using remaining_skipNewlines_cur[of "snd pk"] by (simp_all add: noComment_skipNewlines_cur)
  then have "remaining p3 \<le> b" "noComment p3"
    using remaining_parseImports[of "[]" "skipNewlines_cur (snd pk)"]
    by (simp_all add: p3_def noComment_parseImports)
  then have "returns b (ParseProgram_loop n n [] p3)"
    using assms(2) by (intro ParseProgram_loop_returns)
  then have "returns b (Option.bind (ParseProgram_loop n n [] p3)
      (\<lambda>(stmts, p4). Some (\<lparr>Package = fst pk,
           Imports = fst (parseImports [] (skipNewlines_cur (snd pk))), Statements = stmts\<rparr>, p4)))"
    by (intro returns_bind_same) simp_all
  then show ?thesis
    unfolding ParseProgram_def pk_def p3_def Let_def case_prod_beta .
qed

lemma noComment_New_Parser: "noComment (New_Parser ts)"
  unfolding New_Parser_def
  by (intro noComment_nextToken peekToken_nextToken_noComment) simp

section \<open>More fuel gives the same result\<close>

lemma sub_refl [simp]: "sub m m"
  by (simp add: sub_def)

lemma sub_None [simp]: "sub None m"
  by (simp add: sub_def)

lemma sub_bind:
  "sub m m' \<Longrightarrow> (\<And>r p. sub (f r p) (f' r p))
     \<Longrightarrow> sub (Option.bind m (case_prod f)) (Option.bind m' (case_prod f'))"
proof (cases m)
  case None
  then show ?thesis by simp
next
  case (Some x)
  obtain r p where x: "x = (r, p)" by (cases x)
  assume "sub m m'" and f: "\<And>r p. sub (f r p) (f' r p)"
  then have "m' = Some (r, p)" using Some x by (simp add: sub_def)
  then show ?thesis using Some x f[of r p] by simp
qed

lemma sub_if:
  "(c \<Longrightarrow> sub a a') \<Longrightarrow> (\<not> c \<Longrightarrow> sub b b')
     \<Longrightarrow> sub (if c then a else b) (if c then a' else b')"
  by simp

lemma sub_expectPeek:
  "(\<And>p1. sub (A p1) (A' p1)) \<Longrightarrow> (\<And>p1. sub (B p1) (B' p1))
     \<Longrightarrow> sub (case expectPeek t p of (False, p1) \<Rightarrow> A p1 | (True, p1) \<Rightarrow> B p1)
             (case expectPeek t p of (False, p1) \<Rightarrow> A' p1 | (True, p1) \<Rightarrow> B' p1)"
  by (simp split: prod.splits bool.splits)

lemma sub_option:
  "sub a a' \<Longrightarrow> (\<And>x. sub (f x) (f' x))
     \<Longrightarrow> sub (case r of None \<Rightarrow> a | Some x \<Rightarrow> f x) (case r of None \<Rightarrow> a' | Some x \<Rightarrow> f' x)"
  by (cases r) simp_all

lemma sub_prod:
  "(\<And>x y. sub (f x y) (f' x y))
     \<Longrightarrow> sub (case r of (x, y) \<Rightarrow> f x y) (case r of (x, y) \<Rightarrow> f' x y)"
  by (cases r) simp

lemma sub_wrap: "sub m m' \<Longrightarrow> sub (wrap f m) (wrap f m')"
  by (auto simp: sub_def wrap_def)

lemma esubD: "esub pe pe' \<Longrightarrow> sub (pe prec p) (pe' prec p)"
  by (simp add: esub_def)

lemma ssubD: "ssub ps ps' \<Longrightarrow> sub (ps p) (ps' p)"
  by (simp add: ssub_def)

lemma parseTypeSpec_mono: "n \<le> n' \<Longrightarrow> sub (parseTypeSpec n p) (parseTypeSpec n' p)"
proof (induction n arbitrary: n' p)
  case 0
  then show ?case by simp
next
  case (Suc n)
  then obtain m where m: "n' = Suc m" "n \<le> m" by (cases n') simp_all
  show ?case
    unfolding m parseTypeSpec.simps Let_def
    by (intro sub_if sub_bind sub_expectPeek Suc.IH m) simp_all
qed

lemma parsePrefixExpression_mono:
  assumes "esub pe pe'"
  shows "sub (parsePrefixExpression pe p) (parsePrefixExpression pe' p)"
  unfolding parsePrefixExpression_def Let_def
  by (intro sub_bind esubD[OF assms(1)] assms) simp_all

lemma parseInfixExpression_mono:
  assumes "esub pe pe'"
  shows "sub (parseInfixExpression pe left p) (parseInfixExpression pe' left p)"
  unfolding parseInfixExpression_def Let_def
  by (intro sub_bind esubD[OF assms(1)] assms) simp_all

lemma parseGroupedExpression_mono:
  assumes "esub pe pe'"
  shows "sub (parseGroupedExpression pe p) (parseGroupedExpression pe' p)"
  unfolding parseGroupedExpression_def
  by (intro sub_bind sub_expectPeek esubD[OF assms(1)] assms) simp_all

lemma parseIndexExpression_mono:
  assumes "esub pe pe'"
  shows "sub (parseIndexExpression pe left p) (parseIndexExpression pe' left p)"
  unfolding parseIndexExpression_def
  by (intro sub_bind sub_expectPeek esubD[OF assms(1)] assms) simp_all

lemma parseExpressionList_loop_mono:
  "k \<le> k' \<Longrightarrow> esub pe pe'
     \<Longrightarrow> sub (parseExpressionList_loop k pe end args p) (parseExpressionList_loop k' pe' end args p)"
proof (induction k arbitrary: k' args p)
  case 0
  then show ?case by simp
next
  case (Suc k)
  then obtain m where m: "k' = Suc m" "k \<le> m" by (cases k') simp_all
  show ?case
    unfolding m parseExpressionList_loop.simps
    by (intro sub_if sub_bind sub_expectPeek esubD[OF Suc.prems(2)] Suc.IH m Suc.prems) simp_all
qed

lemma parseExpressionList_mono:
  assumes "n \<le> n'" "esub pe pe'"
  shows "sub (parseExpressionList n pe end p) (parseExpressionList n' pe' end p)"
  unfolding parseExpressionList_def
  by (intro sub_if sub_bind esubD[OF assms(2)] parseExpressionList_loop_mono assms) simp_all

lemma parseArrayLiteral_mono:
  "n \<le> n' \<Longrightarrow> esub pe pe' \<Longrightarrow> sub (parseArrayLiteral n pe p) (parseArrayLiteral n' pe' p)"
  unfolding parseArrayLiteral_def
  by (intro sub_bind parseExpressionList_mono) simp_all

lemma parseCallExpression_mono:
  "n \<le> n' \<Longrightarrow> esub pe pe'
     \<Longrightarrow> sub (parseCallExpression n pe fn p) (parseCallExpression n' pe' fn p)"
  unfolding parseCallExpression_def
  by (intro sub_bind parseExpressionList_mono) simp_all

lemma parseMapLiteral_loop_mono:
  "k \<le> k' \<Longrightarrow> esub pe pe'
     \<Longrightarrow> sub (parseMapLiteral_loop k pe pairs p) (parseMapLiteral_loop k' pe' pairs p)"
proof (induction k arbitrary: k' pairs p)
  case 0
  then show ?case by simp
next
  case (Suc k)
  then obtain m where m: "k' = Suc m" "k \<le> m" by (cases k') simp_all
  show ?case
    unfolding m parseMapLiteral_loop.simps
    by (intro sub_if sub_bind sub_expectPeek esubD[OF Suc.prems(2)] Suc.IH m Suc.prems) simp_all
qed

lemma parseMapLiteral_mono:
  "n \<le> n' \<Longrightarrow> esub pe pe' \<Longrightarrow> sub (parseMapLiteral n pe p) (parseMapLiteral n' pe' p)"
  unfolding parseMapLiteral_def
  by (intro sub_if parseMapLiteral_loop_mono) simp_all

lemma callPrefix_mono:
  "n \<le> n' \<Longrightarrow> esub pe pe' \<Longrightarrow> sub (callPrefix n pe fn p) (callPrefix n' pe' fn p)"
  unfolding callPrefix_def
  by (cases fn)
     (simp_all add: parsePrefixExpression_mono parseGroupedExpression_mono
        parseArrayLiteral_mono parseMapLiteral_mono)

lemma callInfix_mono:
  "n \<le> n' \<Longrightarrow> esub pe pe'
     \<Longrightarrow> sub (callInfix n pe fn left p) (callInfix n' pe' fn left p)"
  unfolding callInfix_def
  by (cases fn)
     (simp_all add: parseInfixExpression_mono parseIndexExpression_mono
        parseCallExpression_mono)

lemma parseExpression_loop_mono:
  "k \<le> k' \<Longrightarrow> n \<le> n' \<Longrightarrow> esub pe pe'
     \<Longrightarrow> sub (parseExpression_loop k n pe precedence leftExp p)
             (parseExpression_loop k' n' pe' precedence leftExp p)"
proof (induction k arbitrary: k' leftExp p)
  case 0
  then show ?case by simp
next
  case (Suc k)
  then obtain m where m: "k' = Suc m" "k \<le> m" by (cases k') simp_all
  show ?case
    unfolding m parseExpression_loop.simps
    by (intro sub_if sub_option sub_bind callInfix_mono Suc.IH m Suc.prems) simp_all
qed

lemma parseExpression_mono:
  "n \<le> n' \<Longrightarrow> sub (parseExpression n precedence p) (parseExpression n' precedence p)"
proof (induction n arbitrary: n' precedence p)
  case 0
  then show ?case by simp
next
  case (Suc n)
  then obtain m where m: "n' = Suc m" "n \<le> m" by (cases n') simp_all
  have e: "esub (parseExpression n) (parseExpression m)"
    unfolding esub_def using Suc.IH[OF m(2)] by simp
  have s: "Suc n \<le> Suc m" using m(2) by simp
  show ?case
    unfolding m parseExpression.simps
    by (intro sub_option sub_bind callPrefix_mono parseExpression_loop_mono e s) simp_all
qed

lemma parseParameter_mono: "n \<le> n' \<Longrightarrow> sub (parseParameter n p) (parseParameter n' p)"
  unfolding parseParameter_def Let_def
  by (intro sub_if sub_bind parseTypeSpec_mono) simp_all

lemma parseFunctionParameters_loop_mono:
  "k \<le> k' \<Longrightarrow> n \<le> n'
     \<Longrightarrow> sub (parseFunctionParameters_loop k n params p)
             (parseFunctionParameters_loop k' n' params p)"
proof (induction k arbitrary: k' params p)
  case 0
  then show ?case by simp
next
  case (Suc k)
  then obtain m where m: "k' = Suc m" "k \<le> m" by (cases k') simp_all
  show ?case
    unfolding m parseFunctionParameters_loop.simps
    by (intro sub_if sub_bind parseParameter_mono Suc.IH m Suc.prems) simp_all
qed

lemma parseFunctionParameters_mono:
  "n \<le> n' \<Longrightarrow> sub (parseFunctionParameters n p) (parseFunctionParameters n' p)"
  unfolding parseFunctionParameters_def
  by (intro sub_if sub_bind parseParameter_mono parseFunctionParameters_loop_mono) simp_all

lemma parseVarDeclaration_mono:
  "n \<le> n' \<Longrightarrow> sub (parseVarDeclaration n p) (parseVarDeclaration n' p)"
  unfolding parseVarDeclaration_def Let_def
  by (intro sub_if sub_bind sub_expectPeek parseTypeSpec_mono parseExpression_mono) simp_all

lemma parseReturnStatement_mono:
  "n \<le> n' \<Longrightarrow> sub (parseReturnStatement n p) (parseReturnStatement n' p)"
  unfolding parseReturnStatement_def
  by (intro sub_if parseExpression_mono) simp_all

lemma parseExpressionStatement_mono:
  "n \<le> n' \<Longrightarrow> sub (parseExpressionStatement n p) (parseExpressionStatement n' p)"
  unfolding parseExpressionStatement_def by (rule parseExpression_mono)

lemma parseBlockStatement_loop_mono:
  "k \<le> k' \<Longrightarrow> ssub ps ps'
     \<Longrightarrow> sub (parseBlockStatement_loop k ps stmts p) (parseBlockStatement_loop k' ps' stmts p)"
proof (induction k arbitrary: k' stmts p)
  case 0
  then show ?case by simp
next
  case (Suc k)
  then obtain m where m: "k' = Suc m" "k \<le> m" by (cases k') simp_all
  show ?case
    unfolding m parseBlockStatement_loop.simps
    by (intro sub_if sub_bind ssubD[OF Suc.prems(2)] Suc.IH m Suc.prems) simp_all
qed

lemma parseBlockStatement_mono:
  "n \<le> n' \<Longrightarrow> ssub ps ps'
     \<Longrightarrow> sub (parseBlockStatement n ps p) (parseBlockStatement n' ps' p)"
  unfolding parseBlockStatement_def by (rule parseBlockStatement_loop_mono)

lemma parseFunctionDeclaration_mono:
  "n \<le> n' \<Longrightarrow> ssub ps ps'
     \<Longrightarrow> sub (parseFunctionDeclaration n ps p) (parseFunctionDeclaration n' ps' p)"
  unfolding parseFunctionDeclaration_def Let_def
  by (intro sub_if sub_bind sub_expectPeek parseFunctionParameters_mono parseTypeSpec_mono
        parseBlockStatement_mono) simp_all

lemma parseStructDeclaration_loop_mono:
  "k \<le> k' \<Longrightarrow> n \<le> n' \<Longrightarrow> ssub ps ps'
     \<Longrightarrow> sub (parseStructDeclaration_loop k n ps name flds methods p)
             (parseStructDeclaration_loop k' n' ps' name flds methods p)"
proof (induction k arbitrary: k' flds methods p)
  case 0
  then show ?case by simp
next
  case (Suc k)
  then obtain m where m: "k' = Suc m" "k \<le> m" by (cases k') simp_all
  show ?case
    unfolding m parseStructDeclaration_loop.simps Let_def
    by (intro sub_if sub_bind parseFunctionDeclaration_mono parseTypeSpec_mono
          Suc.IH m Suc.prems) simp_all
qed

lemma parseStructDeclaration_mono:
  "n \<le> n' \<Longrightarrow> ssub ps ps'
     \<Longrightarrow> sub (parseStructDeclaration n ps p) (parseStructDeclaration n' ps' p)"
  unfolding parseStructDeclaration_def Let_def
  by (intro sub_expectPeek parseStructDeclaration_loop_mono) simp_all

lemma parseIfStatement_mono:
  "k \<le> k' \<Longrightarrow> n \<le> n' \<Longrightarrow> ssub ps ps'
     \<Longrightarrow> sub (parseIfStatement k n ps p) (parseIfStatement k' n' ps' p)"
proof (induction k arbitrary: k' p)
  case 0
  then show ?case by simp
next
  case (Suc k)
  then obtain m where m: "k' = Suc m" "k \<le> m" by (cases k') simp_all
  show ?case
    unfolding m parseIfStatement.simps Let_def
    by (intro sub_if sub_bind sub_expectPeek parseExpression_mono parseBlockStatement_mono
          Suc.IH m Suc.prems) simp_all
qed

lemma parseForHead_mono:
  assumes "n \<le> n'" "ssub ps ps'"
  shows "sub (parseForHead n ps p) (parseForHead n' ps' p)"
  unfolding parseForHead_def Let_def
  by (intro sub_if sub_bind sub_expectPeek parseExpression_mono ssubD[OF assms(2)] assms) simp_all

lemma parseForStatement_mono:
  "n \<le> n' \<Longrightarrow> ssub ps ps'
     \<Longrightarrow> sub (parseForStatement n ps p) (parseForStatement n' ps' p)"
  unfolding parseForStatement_def
  by (intro sub_bind sub_option sub_prod sub_expectPeek parseForHead_mono
        parseBlockStatement_mono) simp_all

lemma parseWhileStatement_mono:
  "n \<le> n' \<Longrightarrow> ssub ps ps'
     \<Longrightarrow> sub (parseWhileStatement n ps p) (parseWhileStatement n' ps' p)"
  unfolding parseWhileStatement_def
  by (intro sub_bind sub_expectPeek parseExpression_mono parseBlockStatement_mono) simp_all

lemma parseStatement_mono: "n \<le> n' \<Longrightarrow> sub (parseStatement n p) (parseStatement n' p)"
proof (induction n arbitrary: n' p)
  case 0
  then show ?case by simp
next
  case (Suc n)
  then obtain m where m: "n' = Suc m" "n \<le> m" by (cases n') simp_all
  have e: "ssub (parseStatement n) (parseStatement m)"
    unfolding ssub_def using Suc.IH[OF m(2)] by simp
  have s: "Suc n \<le> Suc m" using m(2) by simp
  show ?case
    unfolding m parseStatement.simps Let_def
    by (intro sub_if sub_wrap parseFunctionDeclaration_mono parseStructDeclaration_mono
          parseVarDeclaration_mono parseIfStatement_mono parseForStatement_mono
          parseWhileStatement_mono parseReturnStatement_mono parseExpressionStatement_mono e s)
qed

lemma ParseProgram_loop_mono:
  "k \<le> k' \<Longrightarrow> n \<le> n'
     \<Longrightarrow> sub (ParseProgram_loop k n stmts p) (ParseProgram_loop k' n' stmts p)"
proof (induction k arbitrary: k' stmts p)
  case 0
  then show ?case by simp
next
  case (Suc k)
  then obtain m where m: "k' = Suc m" "k \<le> m" by (cases k') simp_all
  show ?case
    unfolding m ParseProgram_loop.simps
    by (intro sub_if sub_bind parseStatement_mono Suc.IH m Suc.prems) simp_all
qed

lemma ParseProgram_mono: "n \<le> n' \<Longrightarrow> sub (ParseProgram n p) (ParseProgram n' p)"
  unfolding ParseProgram_def Let_def
  by (intro sub_prod sub_bind ParseProgram_loop_mono) simp_all

lemma ParseProgram_fuel:
  "ParseProgram n p = Some r \<Longrightarrow> n \<le> n' \<Longrightarrow> ParseProgram n' p = Some r"
  using ParseProgram_mono[of n n' p] by (simp add: sub_def)

section \<open>Properties of the lexer\<close>

text \<open>
  Claim C5. For every input string, once the lexer has consumed the whole input (its
  position has reached the length of the input), every later call of \<open>NextToken\<close>
  returns a token of kind \<open>EOF\<close>, with no panic, however many calls follow. The second
  part says when that is: after \<open>length inp\<close> calls at the latest.
\<close>

theorem C5_eof_forever:
  "(length inp \<le> position (calls k (New inp)) \<longrightarrow>
      isToken EOF (fst (NextToken (calls (k + n) (New inp)))))
   \<and> isToken EOF (fst (NextToken (calls (length inp + n) (New inp))))"
proof -
  have ok: "lexer_ok (New inp)" and inp: "input (New inp) = inp"
    using lexer_ok_New by simp_all
  have a: "isToken EOF (fst (NextToken (calls (j + n) (New inp))))"
    if "length inp \<le> position (calls j (New inp))" for j
  proof -
    have s: "scanned j (New inp) (calls j (New inp))" using ok by (rule scanned_calls)
    show ?thesis
      unfolding calls_add
      using that s inp by (intro eof_at_end) (auto simp: scanned_def)
  qed
  have "length inp \<le> position (calls (length inp) (New inp))"
    using scanned_calls[OF ok, of "length inp"] by (simp add: scanned_def)
  then show ?thesis using a by blast
qed

theorem C5_eof_forever_witness:
  "length ''42'' \<le> position (calls (Suc 0) (New ''42''))
   \<and> isToken EOF (fst (NextToken (calls (Suc 0 + 3) (New ''42''))))"
proof -
  have h: "length ''42'' \<le> position (calls (Suc 0) (New ''42''))"
    by code_simp
  show ?thesis using h C5_eof_forever[of "''42''" "Suc 0" 3] by blast
qed

text \<open>
  Claim C6. Lexing \<open>42\<close> gives one token of kind \<open>INT\<close> with the text \<open>42\<close> and then the
  end of the input; lexing \<open>3.14\<close>, \<open>1.5e10\<close> and \<open>2.5E-3\<close> gives one token of kind
  \<open>FLOAT\<close> each, with the text of the input unchanged.
\<close>

theorem C6_number_literals:
  "tokens 2 (New ''42'') =
     [Inr \<lparr>Type = INT', Literal = ''42'', Line = 1, Column = 1, Position = 0\<rparr>,
      Inr \<lparr>Type = EOF, Literal = [], Line = 1, Column = 3, Position = 2\<rparr>]
   \<and> tokens 2 (New ''3.14'') =
     [Inr \<lparr>Type = FLOAT, Literal = ''3.14'', Line = 1, Column = 1, Position = 0\<rparr>,
      Inr \<lparr>Type = EOF, Literal = [], Line = 1, Column = 5, Position = 4\<rparr>]
   \<and> tokens 2 (New ''1.5e10'') =
     [Inr \<lparr>Type = FLOAT, Literal = ''1.5e10'', Line = 1, Column = 1, Position = 0\<rparr>,
      Inr \<lparr>Type = EOF, Literal = [], Line = 1, Column = 7, Position = 6\<rparr>]
   \<and> tokens 2 (New ''2.5E-3'') =
     [Inr \<lparr>Type = FLOAT, Literal = ''2.5E-3'', Line = 1, Column = 1, Position = 0\<rparr>,
      Inr \<lparr>Type = EOF, Literal = [], Line = 1, Column = 7, Position = 6\<rparr>]"
  by code_simp

text \<open>
  Claim C8 says that every token carries a line and a column that are at least 1 and
  are those of the first byte of its lexeme. The lexer computes the column of an
  identifier by subtracting the length of the text from the column counter after the
  scan; when the byte after the identifier is a newline, \<open>readChar\<close> has already reset
  the counter to 0 and moved to the next line. On the input \<open>x\<close> followed by a newline, the
  identifier is reported on line 2 at column -1, and the newline token at column 0.
\<close>

theorem C8_column_after_newline:
  "tokens 2 (New [CHR ''x'', LF]) =
     [Inr \<lparr>Type = IDENT, Literal = ''x'', Line = 2, Column = - 1, Position = 0\<rparr>,
      Inr \<lparr>Type = NEWLINE, Literal = [LF], Line = 2, Column = 0, Position = 1\<rparr>]"
  by code_simp

text \<open>
  Claim C10. A call of \<open>NextToken\<close> on a lexer whose current byte is not the sentinel
  moves the position forward by at least one byte; and among the results of any number
  of calls on an input, at most \<open>length inp\<close> are tokens of a kind other than \<open>EOF\<close>.
\<close>

theorem C10_progress:
  "(ch (calls k (New inp)) \<noteq> NUL \<longrightarrow>
      position (calls k (New inp)) < position (snd (NextToken (calls k (New inp)))))
   \<and> length (filter notEOF (tokens n (New inp))) \<le> length inp"
proof -
  have ok: "lexer_ok (New inp)" and inp: "input (New inp) = inp"
    using lexer_ok_New by simp_all
  have "lexer_ok (calls k (New inp))" using scanned_calls[OF ok] by (rule scanned_ok)
  then have "scanned (Suc 0) (calls k (New inp)) (snd (NextToken (calls k (New inp))))"
    by (rule scanned_NextToken)
  moreover have "length (filter notEOF (tokens n (New inp))) \<le> length inp"
    using count_notEOF[OF ok, of n] inp by simp
  ultimately show ?thesis by (simp add: scanned_def)
qed

theorem C10_progress_witness:
  "ch (calls 0 (New ''x + 1'')) \<noteq> NUL
   \<and> position (calls 0 (New ''x + 1'')) < position (snd (NextToken (calls 0 (New ''x + 1''))))
   \<and> length (filter notEOF (tokens 9 (New ''x + 1''))) \<le> length ''x + 1''"
proof -
  have h: "ch (calls 0 (New ''x + 1'')) \<noteq> NUL"
    by code_simp
  show ?thesis using h C10_progress[of 0 "''x + 1''" 9] by blast
qed

section \<open>Properties of the parser\<close>

text \<open>
  \<open>ParseProgram\<close> returns on the results of every lexer, whatever the fuel from
  \<open>remaining (New_Parser rs) + 1\<close> on, and with the same program and state. This is said of
  the model, which has no bound on the depth of its recursion and goes on after a panic of
  the lexer; the claims below say what holds of the source.
\<close>

lemma Parse_returns:
  "returns (remaining (New_Parser ts))
     (ParseProgram (Suc (remaining (New_Parser ts)) + m) (New_Parser ts))"
  by (intro ParseProgram_returns noComment_New_Parser) simp_all

lemma Parse_fuel:
  "\<exists>prog p. \<forall>m. ParseProgram (Suc (remaining (New_Parser rs)) + m) (New_Parser rs) = Some (prog, p)"
proof -
  obtain prog p where
    r: "ParseProgram (Suc (remaining (New_Parser rs)) + 0) (New_Parser rs) = Some (prog, p)"
    using Parse_returns[of rs 0] by (auto simp: returns_def split: option.splits)
  have "ParseProgram (Suc (remaining (New_Parser rs)) + m) (New_Parser rs) = Some (prog, p)" for m
    using r by (rule ParseProgram_fuel) simp
  then show ?thesis by blast
qed

text \<open>
  A panic is kept once it is recorded. A panic among the results that the parser does not
  get to does not happen: on a source that starts with the byte 0 the parser has the
  token \<open>EOF\<close> as its current token after \<open>New\<close> and returns the empty program, whatever
  follows, here a string literal that ends in a backslash.
\<close>

lemma panicked_nextToken: "panicked p = Some e \<Longrightarrow> panicked (nextToken p) = Some e"
  by (simp add: nextToken_def case_prod_beta Let_def split: sum.splits)

lemma panic_not_reached:
  "ParseSource ([NUL] @ '' 1 '' @ [DQUOTE, BACKSLASH])
     = Inr (Some (\<lparr>Package = ''main'', Imports = [], Statements = []\<rparr>, []))
   \<and> kinds (take 3 (lexer_results ([NUL] @ '' 1 '' @ [DQUOTE, BACKSLASH])))
     = [Inr EOF, Inr INT', Inl SliceBoundsOutOfRange]"
proof -
  have a: "ParseSource ([NUL] @ '' 1 '' @ [DQUOTE, BACKSLASH])
     = Inr (Some (\<lparr>Package = ''main'', Imports = [], Statements = []\<rparr>, []))"
    by code_simp
  have b: "kinds (take 3 (lexer_results ([NUL] @ '' 1 '' @ [DQUOTE, BACKSLASH])))
     = [Inr EOF, Inr INT', Inl SliceBoundsOutOfRange]"
    by code_simp
  show ?thesis using a b by blast
qed

text \<open>
  Claim C1. The input \<open>1 + 2 * 3\<close> parses to an addition whose left operand is the
  integer literal 1 and whose right operand is the multiplication of 2 and 3. In general
  (\<open>tighter hi lo\<close>: in \<open>1 lo 2 hi 3\<close> the operator \<open>hi\<close> takes 2 and 3, in \<open>1 hi 2 lo 3\<close>
  it takes 1 and 2) each of \<open>*\<close>, \<open>/\<close>, \<open>%\<close> and \<open>**\<close> binds tighter than each of \<open>+\<close> and
  \<open>-\<close>, and these bind tighter than each of the relational operators \<open><\<close>, \<open>>\<close>, \<open><=\<close>,
  \<open>>=\<close> and of the equality operators \<open>==\<close> and \<open>!=\<close>. The table \<open>precedences\<close> has the
  level \<open>PRODUCT\<close> for the multiplicative operators, \<open>SUM\<close> for the additive ones,
  \<open>LESSGREATER\<close> for the relational ones and \<open>EQUALS\<close> for the equality operators, and
  \<open>EQUALS < LESSGREATER < SUM < PRODUCT\<close>.
\<close>

theorem C1_precedence:
  "ParseSource ''1 + 2 * 3'' = expression_program (bin (lit 1) ''+'' (bin (lit 2) ''*'' (lit 3)))
   \<and> (\<forall>m\<in>set multiplicative. \<forall>a\<in>set additive. tighter m a)
   \<and> (\<forall>a\<in>set additive. \<forall>c\<in>set (relational @ equality). tighter a c)
   \<and> (\<forall>m\<in>set multiplicative. \<forall>c\<in>set (relational @ equality). tighter m c)
   \<and> map (map_of precedences) [MULTIPLY, DIVIDE, MODULO, POWER]
       = [Some PRODUCT, Some PRODUCT, Some PRODUCT, Some PRODUCT]
   \<and> map (map_of precedences) [PLUS, MINUS] = [Some SUM', Some SUM']
   \<and> map (map_of precedences) [LT, GT, LT_EQ, GT_EQ]
       = [Some LESSGREATER, Some LESSGREATER, Some LESSGREATER, Some LESSGREATER]
   \<and> map (map_of precedences) [EQ, NOT_EQ] = [Some EQUALS, Some EQUALS]
   \<and> EQUALS < LESSGREATER \<and> LESSGREATER < SUM' \<and> SUM' < PRODUCT"
proof -
  have a: "ParseSource ''1 + 2 * 3''
      = expression_program (bin (lit 1) ''+'' (bin (lit 2) ''*'' (lit 3)))"
    by code_simp
  have ma: "tighter ''*'' ''+''" "tighter ''*'' ''-''" "tighter ''/'' ''+''"
    "tighter ''/'' ''-''" "tighter ''%'' ''+''" "tighter ''%'' ''-''" "tighter ''**'' ''+''"
    "tighter ''**'' ''-''"
    by code_simp+
  have ac: "tighter ''+'' ''<''" "tighter ''+'' ''>''" "tighter ''+'' ''<=''"
    "tighter ''+'' ''>=''" "tighter ''+'' ''==''" "tighter ''+'' ''!=''"
    "tighter ''-'' ''<''" "tighter ''-'' ''>''" "tighter ''-'' ''<=''"
    "tighter ''-'' ''>=''" "tighter ''-'' ''==''" "tighter ''-'' ''!=''"
    by code_simp+
  have mc: "tighter ''*'' ''<''" "tighter ''*'' ''>''" "tighter ''*'' ''<=''"
    "tighter ''*'' ''>=''" "tighter ''*'' ''==''" "tighter ''*'' ''!=''"
    "tighter ''/'' ''<''" "tighter ''/'' ''>''" "tighter ''/'' ''<=''"
    "tighter ''/'' ''>=''" "tighter ''/'' ''==''" "tighter ''/'' ''!=''"
    "tighter ''%'' ''<''" "tighter ''%'' ''>''" "tighter ''%'' ''<=''"
    "tighter ''%'' ''>=''" "tighter ''%'' ''==''" "tighter ''%'' ''!=''"
    "tighter ''**'' ''<''" "tighter ''**'' ''>''" "tighter ''**'' ''<=''"
    "tighter ''**'' ''>=''" "tighter ''**'' ''==''" "tighter ''**'' ''!=''"
    by code_simp+
  have b: "\<forall>m\<in>set multiplicative. \<forall>a\<in>set additive. tighter m a"
    by (simp add: multiplicative_def additive_def ma)
  have c: "\<forall>a\<in>set additive. \<forall>c\<in>set (relational @ equality). tighter a c"
    by (simp add: additive_def relational_def equality_def ac)
  have c': "\<forall>m\<in>set multiplicative. \<forall>c\<in>set (relational @ equality). tighter m c"
    by (simp add: multiplicative_def relational_def equality_def mc)
  have d: "map (map_of precedences) [MULTIPLY, DIVIDE, MODULO, POWER]
       = [Some PRODUCT, Some PRODUCT, Some PRODUCT, Some PRODUCT]"
    "map (map_of precedences) [PLUS, MINUS] = [Some SUM', Some SUM']"
    "map (map_of precedences) [LT, GT, LT_EQ, GT_EQ]
       = [Some LESSGREATER, Some LESSGREATER, Some LESSGREATER, Some LESSGREATER]"
    "map (map_of precedences) [EQ, NOT_EQ] = [Some EQUALS, Some EQUALS]"
    by (simp_all add: precedences_def)
  have e: "EQUALS < LESSGREATER" "LESSGREATER < SUM'" "SUM' < PRODUCT"
    by (simp_all add: EQUALS_def LESSGREATER_def SUM'_def PRODUCT_def)
  show ?thesis using a b c c' d e by blast
qed

theorem C1_precedence_witness:
  "''%'' \<in> set multiplicative \<and> ''**'' \<in> set multiplicative \<and> ''+'' \<in> set additive
   \<and> ''=='' \<in> set (relational @ equality)
   \<and> ParseSource ''1 + 2 % 3'' = expression_program (bin (lit 1) ''+'' (bin (lit 2) ''%'' (lit 3)))
   \<and> ParseSource ''1 ** 2 + 3'' = expression_program (bin (bin (lit 1) ''**'' (lit 2)) ''+'' (lit 3))
   \<and> ParseSource ''1 == 2 + 3'' = expression_program (bin (lit 1) ''=='' (bin (lit 2) ''+'' (lit 3)))"
proof -
  have m: "''%'' \<in> set multiplicative" "''**'' \<in> set multiplicative"
    and a: "''+'' \<in> set additive" and c: "''=='' \<in> set (relational @ equality)"
    by (simp_all add: multiplicative_def additive_def relational_def equality_def)
  have "tighter ''%'' ''+''" "tighter ''**'' ''+''" "tighter ''+'' ''==''"
    using C1_precedence m a c by blast+
  then show ?thesis using m a c by (simp add: tighter_def)
qed

text \<open>
  Claim C2, which says that \<open>ParseProgram\<close> returns on every finite input and never
  panics, and that it returns with a non-empty error list on the source \<open>func main(\<close>,
  newline, \<open>print("x")\<close>. The second part holds. The first one does not: on the source
  \<open>x := "a\<close> followed by a backslash, which ends inside a string literal, the third
  call of \<open>NextToken\<close>, which the parser makes in \<open>parseVarDeclaration\<close>, panics in
  \<open>readString\<close> with a slice bound out of range, and the panic ends \<open>ParseProgram\<close>.
  \<open>readString\<close> stops at the end of the input, but not when it skips the byte after a
  backslash.
\<close>

theorem C2_lexer_panic_in_ParseProgram:
  "ParseSource backslash_at_end = Inl SliceBoundsOutOfRange
   \<and> kinds (take 3 (lexer_results backslash_at_end))
       = [Inr IDENT, Inr WALRUS, Inl SliceBoundsOutOfRange]
   \<and> ParseSource unterminated_parameters =
       Inr (Some (\<lparr>Package = ''main'', Imports = [],
                   Statements = [FunctionDeclStmt None,
                                 ExpressionStmtStmt (Some (LiteralExpr ''string'' (StringValue ''x'')))]\<rparr>,
                  [''expected next token to be RPAREN, got LPAREN instead'']))"
proof -
  have a: "ParseSource backslash_at_end = Inl SliceBoundsOutOfRange"
    by code_simp
  have b: "kinds (take 3 (lexer_results backslash_at_end))
       = [Inr IDENT, Inr WALRUS, Inl SliceBoundsOutOfRange]"
    by code_simp
  have c: "ParseSource unterminated_parameters =
       Inr (Some (\<lparr>Package = ''main'', Imports = [],
                   Statements = [FunctionDeclStmt None,
                                 ExpressionStmtStmt (Some (LiteralExpr ''string'' (StringValue ''x'')))]\<rparr>,
                  [''expected next token to be RPAREN, got LPAREN instead'']))"
    by code_simp
  show ?thesis using a b c by blast
qed

text \<open>
  Claim C3, which says that a struct declaration with one field and one method has that
  field in \<open>Fields\<close> and that method in \<open>Methods\<close>, with the struct as the type of its
  receiver. The code leaves both lists empty: when the loop over the members starts, the
  current token is the colon or a newline, never an identifier or \<open>func\<close>, so its body
  never runs. The member lines are parsed as statements of the program, after the struct,
  and the method has no receiver. \<open>TestStructDeclaration\<close> expects one statement, two
  fields and one method of its input, the second one here.
\<close>

theorem C3_struct_members_lost:
  "ParseSource struct_source =
     Inr (Some (\<lparr>Package = ''main'', Imports = [],
                 Statements = [StructDeclStmt (Some (StructDecl ''Person'' [] [])),
                               ExpressionStmtStmt (Some (Identifier ''name'')),
                               ExpressionStmtStmt (Some (Identifier ''string'')),
                               greet]\<rparr>, []))
   \<and> ParseSource test_struct_source =
     Inr (Some (\<lparr>Package = ''main'', Imports = [],
                 Statements = [StructDeclStmt (Some (StructDecl ''Person'' [] [])),
                               ExpressionStmtStmt (Some (Identifier ''name'')),
                               ExpressionStmtStmt (Some (Identifier ''string'')),
                               ExpressionStmtStmt (Some (Identifier ''age'')),
                               ExpressionStmtStmt (Some (Identifier ''int'')),
                               greet]\<rparr>, []))"
proof -
  have a: "ParseSource struct_source =
     Inr (Some (\<lparr>Package = ''main'', Imports = [],
                 Statements = [StructDeclStmt (Some (StructDecl ''Person'' [] [])),
                               ExpressionStmtStmt (Some (Identifier ''name'')),
                               ExpressionStmtStmt (Some (Identifier ''string'')),
                               greet]\<rparr>, []))"
    by code_simp
  have b: "ParseSource test_struct_source =
     Inr (Some (\<lparr>Package = ''main'', Imports = [],
                 Statements = [StructDeclStmt (Some (StructDecl ''Person'' [] [])),
                               ExpressionStmtStmt (Some (Identifier ''name'')),
                               ExpressionStmtStmt (Some (Identifier ''string'')),
                               ExpressionStmtStmt (Some (Identifier ''age'')),
                               ExpressionStmtStmt (Some (Identifier ''int'')),
                               greet]\<rparr>, []))"
    by code_simp
  show ?thesis using a b by blast
qed

text \<open>
  Claim C4, which says that the path of every import declaration is resolved through the
  alias table, for the quoted, the parenthesised and the unquoted form. For the unquoted
  \<open>import json\<close> the code stores the name as written, \<open>json\<close>; for the quoted form of the
  same name it stores \<open>"encoding/json"\<close>, which is what \<open>GetRealPackagePath\<close> gives.
\<close>

theorem C4_unquoted_import_unresolved:
  "ParseSource ''import json'' =
     Inr (Some (\<lparr>Package = ''main'', Imports = [\<lparr>Path = ''json'', Alias = [], Items = []\<rparr>],
                 Statements = [ExpressionStmtStmt (Some (Identifier ''json''))]\<rparr>, []))
   \<and> ParseSource (''import '' @ quote ''json'') =
     Inr (Some (\<lparr>Package = ''main'',
                 Imports = [\<lparr>Path = quote ''encoding/json'', Alias = [], Items = []\<rparr>],
                 Statements = []\<rparr>, []))
   \<and> GetRealPackagePath ''json'' = ''encoding/json''"
proof -
  have a: "ParseSource ''import json'' =
     Inr (Some (\<lparr>Package = ''main'', Imports = [\<lparr>Path = ''json'', Alias = [], Items = []\<rparr>],
                 Statements = [ExpressionStmtStmt (Some (Identifier ''json''))]\<rparr>, []))"
    by code_simp
  have b: "ParseSource (''import '' @ quote ''json'') =
     Inr (Some (\<lparr>Package = ''main'',
                 Imports = [\<lparr>Path = quote ''encoding/json'', Alias = [], Items = []\<rparr>],
                 Statements = []\<rparr>, []))"
    by code_simp
  have c: "GetRealPackagePath ''json'' = ''encoding/json''"
    by code_simp
  show ?thesis using a b c by blast
qed






text \<open>
  Claim C9. The current token of the parser is never a comment: \<open>New\<close> gives a parser
  whose current and lookahead tokens are no comments, \<open>nextToken\<close> makes the lookahead token
  the current one and its new lookahead token is no comment, and \<open>ParseProgram\<close> returns in
  a state whose current token is no comment and whose errors do not have the error of an
  expression that starts with a comment.
\<close>

theorem C9_no_comment_token:
  "Type (curToken (New_Parser ts)) \<noteq> COMMENT \<and> Type (peekToken (New_Parser ts)) \<noteq> COMMENT
   \<and> curToken (nextToken p) = peekToken p \<and> Type (peekToken (nextToken p)) \<noteq> COMMENT
   \<and> (\<exists>prog q. Parse ts = Some (prog, q) \<and> Type (curToken q) \<noteq> COMMENT
         \<and> commentError \<notin> set (errors q))"
proof -
  have "noComment (New_Parser ts)" by (rule noComment_New_Parser)
  then have a: "Type (curToken (New_Parser ts)) \<noteq> COMMENT"
      "Type (peekToken (New_Parser ts)) \<noteq> COMMENT"
    by (simp_all add: noComment_def)
  have b: "curToken (nextToken p) = peekToken p" "Type (peekToken (nextToken p)) \<noteq> COMMENT"
    using peekToken_nextToken_noComment[of p] by simp_all
  have c: "\<exists>prog q. Parse ts = Some (prog, q) \<and> Type (curToken q) \<noteq> COMMENT
         \<and> commentError \<notin> set (errors q)"
    using Parse_returns[of ts 0]
    by (auto simp: Parse_def Let_def returns_def noComment_def split: option.splits)
  show ?thesis using a b c by blast
qed

theorem C9_no_comment_token_witness:
  "\<exists>prog q. Parse [Inr (tok COMMENT ''# c''), Inr (tok IDENT ''x''), Inr (tok COMMENT ''# d'')]
       = Some (prog, q)
      \<and> Type (curToken q) \<noteq> COMMENT \<and> commentError \<notin> set (errors q)"
  using C9_no_comment_token[of "[Inr (tok COMMENT ''# c''), Inr (tok IDENT ''x''),
      Inr (tok COMMENT ''# d'')]"]
  by blast

end
